theory Spec2Isabelle
  imports Main "HOL-Library.Sublist" "HOL-Library.AList" "HOL-Library.Multiset"
begin

section \<open>Strings\<close>

text \<open>
  A JavaScript string is a sequence of UTF-16 code units. A file name is a \<^typ>\<open>string\<close>
  here, that is a sequence of code units below 256 (ASCII and Latin-1); every name of
  the static tables of \<^verbatim>\<open>assets/js/main.js\<close> is of that kind.

  \<^verbatim>\<open>detectFileCategory\<close> looks for ASCII text in the upper-cased name, and the flag
  \<^verbatim>\<open>i\<close> of a regular expression compares a code unit with ASCII letters. For both, the
  ASCII part of the case mapping decides, and \<open>toUpperCase\<close> below is that part: it maps
  the letters \<^verbatim>\<open>a\<close> to \<^verbatim>\<open>z\<close> and leaves every other code unit as it is. The whole mapping
  of JavaScript on these names, which also maps the letters of Latin-1, is
  \<open>toUpperCaseW\<close> in the section on the categorizer, where the category of a name is
  proved to be the same with either.
\<close>

definition isDigit :: "char \<Rightarrow> bool" where
  "isDigit c = (let n = (of_char c :: nat) in 48 \<le> n \<and> n \<le> 57)"

definition isUpper :: "char \<Rightarrow> bool" where
  "isUpper c = (let n = (of_char c :: nat) in 65 \<le> n \<and> n \<le> 90)"

definition isLower :: "char \<Rightarrow> bool" where
  "isLower c = (let n = (of_char c :: nat) in 97 \<le> n \<and> n \<le> 122)"

definition isLetter :: "char \<Rightarrow> bool" where
  "isLetter c = (isUpper c \<or> isLower c)"

text \<open>The class \<^verbatim>\<open>\s\<close> on code units below 256: tab, line feed, vertical tab, form
  feed, carriage return, space and no-break space.\<close>

definition isSpace :: "char \<Rightarrow> bool" where
  "isSpace c = (let n = (of_char c :: nat) in (9 \<le> n \<and> n \<le> 13) \<or> n = 32 \<or> n = 160)"

definition upperChar :: "char \<Rightarrow> char" where
  "upperChar c = (if isLower c then char_of ((of_char c :: nat) - 32) else c)"

definition toUpperCase :: "string \<Rightarrow> string" where
  "toUpperCase s = map upperChar s"

text \<open>\<^verbatim>\<open>s.includes(p)\<close>, \<^verbatim>\<open>s.startsWith(p)\<close> and \<^verbatim>\<open>s.endsWith(p)\<close>.\<close>

definition includesStr :: "string \<Rightarrow> string \<Rightarrow> bool" where
  "includesStr s p = sublist p s"

definition startsWith :: "string \<Rightarrow> string \<Rightarrow> bool" where
  "startsWith s p = prefix p s"

definition endsWith :: "string \<Rightarrow> string \<Rightarrow> bool" where
  "endsWith s p = suffix p s"

text \<open>\<^verbatim>\<open>parseInt(ds, 10)\<close> on a non-empty string of decimal digits, which is all the
  source ever passes, with the number as an integer. JavaScript returns the nearest
  double, which is this integer as long as it is below \<open>2\<^sup>5\<^sup>3\<close>; every run of at most
  15 digits is.\<close>

definition digitValue :: "char \<Rightarrow> int" where
  "digitValue c = int (of_char c) - 48"

definition parseInt :: "string \<Rightarrow> int" where
  "parseInt ds = foldl (\<lambda>n c. 10 * n + digitValue c) 0 ds"


section \<open>Categorizer: \<^verbatim>\<open>detectFileCategory\<close>\<close>

definition categoryPriority :: "string list" where
  "categoryPriority = [''DPP'', ''DC'', ''DA'', ''RLM'', ''PT'', ''MT'', ''DP'', ''INF'']"

text \<open>The test of one category key inside the loop of \<^verbatim>\<open>detectFileCategory\<close>.\<close>

definition codeMatches :: "string \<Rightarrow> string \<Rightarrow> bool" where
  "codeMatches upperFileName categoryKey =
     (includesStr upperFileName (''_'' @ categoryKey @ ''_'') \<or>
      includesStr upperFileName (''-'' @ categoryKey @ ''-'') \<or>
      includesStr upperFileName ('' '' @ categoryKey @ '' '') \<or>
      startsWith upperFileName (categoryKey @ ''_'') \<or>
      startsWith upperFileName (categoryKey @ ''-''))"

definition detectFileCategory :: "string \<Rightarrow> string" where
  "detectFileCategory fileName =
     (let upperFileName = toUpperCase fileName
      in case find (codeMatches upperFileName) categoryPriority of
           Some categoryKey \<Rightarrow> categoryKey
         | None \<Rightarrow> ''GERAL'')"


subsection \<open>Case mapping beyond ASCII\<close>

text \<open>
  \<^verbatim>\<open>toUpperCase\<close> and \<^verbatim>\<open>toLowerCase\<close> of JavaScript also map the letters of Latin-1,
  and the result can leave Latin-1: the upper case of \<^verbatim>\<open>U+00FF\<close> is \<^verbatim>\<open>U+0178\<close>, and the
  upper case of the micro sign \<^verbatim>\<open>U+00B5\<close> is \<^verbatim>\<open>U+039C\<close>, whose lower case is \<^verbatim>\<open>U+03BC\<close>.
  The type \<open>cu\<close> holds the code units that the two mappings can produce from a name in
  Latin-1, and a list of them is such a name or one of its case variants. On these code
  units both mappings work on each code unit by itself; the sharp s \<^verbatim>\<open>U+00DF\<close> becomes
  \<^verbatim>\<open>SS\<close>, the multiplication and division signs \<^verbatim>\<open>U+00D7\<close> and \<^verbatim>\<open>U+00F7\<close> stay.
\<close>

datatype cu = Latin1 char | U0178 | U039C | U03BC

definition units :: "string \<Rightarrow> cu list" where
  "units s = map Latin1 s"

fun upperUnit :: "cu \<Rightarrow> cu list" where
  "upperUnit (Latin1 c) =
     (let n = (of_char c :: nat) in
      if isLower c then [Latin1 (upperChar c)]
      else if n = 181 then [U039C]
      else if n = 223 then [Latin1 CHR ''S'', Latin1 CHR ''S'']
      else if 224 \<le> n \<and> n \<le> 254 \<and> n \<noteq> 247 then [Latin1 (char_of (n - 32))]
      else if n = 255 then [U0178]
      else [Latin1 c])"
| "upperUnit U0178 = [U0178]"
| "upperUnit U039C = [U039C]"
| "upperUnit U03BC = [U039C]"

fun lowerUnit :: "cu \<Rightarrow> cu list" where
  "lowerUnit (Latin1 c) =
     (let n = (of_char c :: nat) in
      if isUpper c \<or> (192 \<le> n \<and> n \<le> 222 \<and> n \<noteq> 215) then [Latin1 (char_of (n + 32))]
      else [Latin1 c])"
| "lowerUnit U0178 = [Latin1 (CHR 0xFF)]"
| "lowerUnit U039C = [U03BC]"
| "lowerUnit U03BC = [U03BC]"

definition toUpperCaseW :: "cu list \<Rightarrow> cu list" where
  "toUpperCaseW u = concat (map upperUnit u)"

definition toLowerCaseW :: "cu list \<Rightarrow> cu list" where
  "toLowerCaseW u = concat (map lowerUnit u)"

text \<open>\<^verbatim>\<open>detectFileCategory\<close> on these names, with the whole case mapping.\<close>

definition codeMatchesW :: "cu list \<Rightarrow> string \<Rightarrow> bool" where
  "codeMatchesW upperFileName categoryKey =
     (sublist (units (''_'' @ categoryKey @ ''_'')) upperFileName \<or>
      sublist (units (''-'' @ categoryKey @ ''-'')) upperFileName \<or>
      sublist (units ('' '' @ categoryKey @ '' '')) upperFileName \<or>
      prefix (units (categoryKey @ ''_'')) upperFileName \<or>
      prefix (units (categoryKey @ ''-'')) upperFileName)"

definition detectFileCategoryW :: "cu list \<Rightarrow> string" where
  "detectFileCategoryW fileName =
     (let upperFileName = toUpperCaseW fileName
      in case find (codeMatchesW upperFileName) categoryPriority of
           Some categoryKey \<Rightarrow> categoryKey
         | None \<Rightarrow> ''GERAL'')"


section \<open>NumberExtractor: \<^verbatim>\<open>extractFileNumber\<close>\<close>

text \<open>\<^verbatim>\<open>fileName.replace(/\.html?$/i, '')\<close>: a final \<^verbatim>\<open>.html\<close> or \<^verbatim>\<open>.htm\<close>, in
  any letter case, is removed. Without the \<^verbatim>\<open>u\<close> flag a code unit beyond ASCII never
  matches an ASCII letter, so comparing the upper-cased ending is exact.\<close>

definition stripHtmlExt :: "string \<Rightarrow> string" where
  "stripHtmlExt fileName =
     (let n = length fileName in
      if 5 \<le> n \<and> toUpperCase (drop (n - 5) fileName) = ''.HTML'' then take (n - 5) fileName
      else if 4 \<le> n \<and> toUpperCase (drop (n - 4) fileName) = ''.HTM'' then take (n - 4) fileName
      else fileName)"

text \<open>
  \<^verbatim>\<open>String.prototype.match\<close> with a regular expression that has no \<^verbatim>\<open>g\<close> flag tries
  the start positions from left to right and returns the match array (whole match, then
  the capture groups) of the first position where the pattern matches.
\<close>

fun firstMatch :: "(string \<Rightarrow> string list option) \<Rightarrow> string \<Rightarrow> string list option" where
  "firstMatch p [] = p []"
| "firstMatch p (c # cs) = (case p (c # cs) of Some m \<Rightarrow> Some m | None \<Rightarrow> firstMatch p cs)"

text \<open>
  \<^verbatim>\<open>(\d{3,4})\<close> as the last item of a pattern: the quantifier is greedy and nothing
  follows it, so it takes four digits when there are four and three otherwise.
\<close>

definition digits34 :: "string \<Rightarrow> string option" where
  "digits34 s =
     (let d = takeWhile isDigit (take 4 s) in if 3 \<le> length d then Some d else None)"

text \<open>
  \<^verbatim>\<open>([A-Z]+)\<close> with the \<^verbatim>\<open>i\<close> flag is a greedy run of ASCII letters. In the three
  structured patterns the item after it (\<^verbatim>\<open>_\<close>, \<^verbatim>\<open>-\<close> or \<^verbatim>\<open>\s\<close>) is not a letter, so
  giving letters back never helps and the run is the maximal one.
\<close>

definition lettersThen :: "(string \<Rightarrow> string \<Rightarrow> string list option) \<Rightarrow> string \<Rightarrow> string list option" where
  "lettersThen k s =
     (let ls = takeWhile isLetter s in if ls = [] then None else k ls (dropWhile isLetter s))"

text \<open>\<^verbatim>\<open>/_([A-Z]+)_(\d{3,4})/i\<close> at a fixed start position.\<close>

definition pattern1 :: "string \<Rightarrow> string list option" where
  "pattern1 s =
     (case s of
        [] \<Rightarrow> None
      | c # r \<Rightarrow>
          if c = CHR ''_'' then
            lettersThen (\<lambda>ls r'.
              case r' of
                [] \<Rightarrow> None
              | c' # r'' \<Rightarrow>
                  if c' = CHR ''_'' then
                    (case digits34 r'' of
                       Some d \<Rightarrow> Some [''_'' @ ls @ ''_'' @ d, ls, d]
                     | None \<Rightarrow> None)
                  else None) r
          else None)"

text \<open>\<^verbatim>\<open>/([A-Z]+)-(\d{3,4})/i\<close> at a fixed start position.\<close>

definition pattern2 :: "string \<Rightarrow> string list option" where
  "pattern2 s =
     lettersThen (\<lambda>ls r'.
       case r' of
         [] \<Rightarrow> None
       | c' # r'' \<Rightarrow>
           if c' = CHR ''-'' then
             (case digits34 r'' of
                Some d \<Rightarrow> Some [ls @ ''-'' @ d, ls, d]
              | None \<Rightarrow> None)
           else None) s"

text \<open>\<^verbatim>\<open>/([A-Z]+)\s+(\d{3,4})/i\<close> at a fixed start position; the run of white space is
  maximal because a digit is not white space.\<close>

definition pattern3 :: "string \<Rightarrow> string list option" where
  "pattern3 s =
     lettersThen (\<lambda>ls r'.
       let ws = takeWhile isSpace r' in
       if ws = [] then None
       else (case digits34 (dropWhile isSpace r') of
               Some d \<Rightarrow> Some [ls @ ws @ d, ls, d]
             | None \<Rightarrow> None)) s"

text \<open>The non-capturing group \<^verbatim>\<open>(?:\s|[-_]|$)\<close>: one separator, or the end of the
  input. It returns what it consumed.\<close>

definition boundary :: "string \<Rightarrow> string option" where
  "boundary r =
     (case r of
        [] \<Rightarrow> Some []
      | c # _ \<Rightarrow> if isSpace c \<or> c = CHR ''-'' \<or> c = CHR ''_'' then Some [c] else None)"

text \<open>\<^verbatim>\<open>/(\d{3,4})(?:\s|[-_]|$)/\<close> at a fixed start position. Here the quantifier is
  followed by the boundary group, so the matcher backtracks: four digits and a boundary
  first, then three digits and a boundary.\<close>

definition allDigits :: "nat \<Rightarrow> string \<Rightarrow> bool" where
  "allDigits n s = (n \<le> length s \<and> list_all isDigit (take n s))"

definition pattern4 :: "string \<Rightarrow> string list option" where
  "pattern4 s =
     (case (if allDigits 4 s then boundary (drop 4 s) else None) of
        Some b \<Rightarrow> Some [take 4 s @ b, take 4 s]
      | None \<Rightarrow>
          (case (if allDigits 3 s then boundary (drop 3 s) else None) of
             Some b \<Rightarrow> Some [take 3 s @ b, take 3 s]
           | None \<Rightarrow> None))"

text \<open>\<^verbatim>\<open>/(\d{3,})/\<close> and \<^verbatim>\<open>/(\d+)/\<close> at a fixed start position.\<close>

definition pattern5 :: "string \<Rightarrow> string list option" where
  "pattern5 s = (let d = takeWhile isDigit s in if 3 \<le> length d then Some [d, d] else None)"

definition anyNumber :: "string \<Rightarrow> string list option" where
  "anyNumber s = (let d = takeWhile isDigit s in if 1 \<le> length d then Some [d, d] else None)"

definition patterns :: "(string \<Rightarrow> string list option) list" where
  "patterns = [pattern1, pattern2, pattern3, pattern4, pattern5]"

text \<open>
  The loop over \<^verbatim>\<open>patterns\<close>: the first pattern with a match decides, through its
  second capture group when the match array has one and through its first otherwise.
  The conversion of the captured digits to a number, \<^verbatim>\<open>parseInt(\<cdot>, 10)\<close> in the source,
  is the parameter \<open>conv\<close>, and the value for a name without digits is the parameter
  \<open>sentinel\<close>: what is proved of the loop holds whatever number type the conversion
  returns.
\<close>

fun tryPatterns :: "(string \<Rightarrow> 'n) \<Rightarrow> (string \<Rightarrow> string list option) list \<Rightarrow> string \<Rightarrow> 'n option" where
  "tryPatterns conv [] baseName = None"
| "tryPatterns conv (p # ps) baseName =
     (case firstMatch p baseName of
        Some m \<Rightarrow>
          if 3 \<le> length m then Some (conv (m ! 2))
          else if 2 \<le> length m then Some (conv (m ! 1))
          else tryPatterns conv ps baseName
      | None \<Rightarrow> tryPatterns conv ps baseName)"

definition extractFileNumberWith :: "(string \<Rightarrow> 'n) \<Rightarrow> 'n \<Rightarrow> string \<Rightarrow> 'n" where
  "extractFileNumberWith conv sentinel fileName =
     (let baseName = stripHtmlExt fileName in
      case tryPatterns conv patterns baseName of
        Some number \<Rightarrow> number
      | None \<Rightarrow>
          (case firstMatch anyNumber baseName of
             Some anyNum \<Rightarrow> conv (anyNum ! 1)
           | None \<Rightarrow> sentinel))"

text \<open>\<^verbatim>\<open>extractFileNumber\<close> with the numbers as integers.\<close>

definition extractFileNumber :: "string \<Rightarrow> int" where
  "extractFileNumber fileName = extractFileNumberWith parseInt 9999 fileName"


section \<open>Data model\<close>

text \<open>
  A file object of the catalog. The source builds these objects with varying sets of
  properties; a property that an object may lack is an option here. The property
  \<^verbatim>\<open>size\<close> is called \<open>fileSize\<close>. \<open>lastModified\<close> holds the time value (milliseconds
  since the epoch) of the date whose ISO rendering the source stores; \<^verbatim>\<open>new Date(iso)\<close>
  reads that value back.
\<close>

record NoteFile =
  name :: string
  path :: string
  fileSize :: int
  url :: string
  download_url :: "string option"
  lastModified :: int
  source :: "string option"
  category :: "string option"
  numericOrder :: "int option"

text \<open>An entry of the JSON array that the remote listing returns.\<close>

record RawEntry =
  entryName :: string
  entryPath :: string
  entrySize :: int
  entryType :: string
  entryDownloadUrl :: "string option"

text \<open>A category of \<^verbatim>\<open>this.categories\<close>. Its name, icon and colour are display data
  that no function of the catalog reads; they are the field \<open>display\<close>.\<close>

record 'd Category =
  display :: 'd
  files :: "NoteFile list"

record RepoInfo =
  owner :: string
  repo :: string
  branch :: string
  isLocal :: bool
  useGitHubAPI :: bool

text \<open>The value under the key \<^verbatim>\<open>notes-portal-cache\<close> of \<^verbatim>\<open>localStorage\<close>: text that
  \<^verbatim>\<open>JSON.parse\<close> rejects, or a cache entry.\<close>

record CacheData =
  files :: "NoteFile list"
  timestamp :: int
  version :: string

datatype Stored = Unparsable | Parsed CacheData

text \<open>What the element \<^verbatim>\<open>files-container\<close> shows.\<close>

datatype View = Untouched | LoadingView | FilesGrid "string list" | EmptyState | ErrorView

text \<open>The accesses to the sources of the catalog and to the persisted store, in the
  order in which they happen.\<close>

datatype Event = Fetch string | StaticTable | StorageRead | StorageWrite | StorageRemove

datatype Thrown =
    NotesFolderNotFound
  | HttpError nat string
  | FetchFailed string
  | BadBody
  | MissingCategory string

text \<open>
  The state: the fields of the \<^verbatim>\<open>NotesPortal\<close> object that the catalog uses, the element
  \<^verbatim>\<open>this.elements.filesContainer\<close> (\<open>None\<close> when the page has no such element), the
  persisted store and the trace of accesses.
\<close>

record 'd Portal =
  files :: "NoteFile list"
  categories :: "(string \<times> 'd Category) list"
  activeCategory :: string
  currentRepo :: RepoInfo
  lastUpdate :: "int option"
  filesContainer :: "View option"
  localStorage :: "Stored option"
  trace :: "Event list"

text \<open>The outcome of \<^verbatim>\<open>fetch\<close> followed by \<^verbatim>\<open>response.json()\<close>: the request fails, or a
  response arrives with a status, a status text and a body; the body is \<open>None\<close> when it
  is not a JSON array of entries.\<close>

datatype FetchResult = NetworkError string | Response nat string "RawEntry list option"

text \<open>
  What one call reads from outside: the outcome of the request, the clock at each place
  where the source reads it, the local time zone (\<open>localMidnight y m d\<close> is the time value
  of \<^verbatim>\<open>new Date(y, m, d)\<close>), the collation \<^verbatim>\<open>localeCompare\<close>, and whether
  \<^verbatim>\<open>localStorage.setItem\<close> throws.
\<close>

record Env =
  response :: FetchResult
  nowCheck :: int
  nowItem :: "nat \<Rightarrow> int"
  nowLoaded :: int
  nowStored :: int
  nowCached :: int
  localMidnight :: "int \<Rightarrow> int \<Rightarrow> int \<Rightarrow> int"
  localeCompare :: "string \<Rightarrow> string \<Rightarrow> int"
  storageFull :: bool

text \<open>The constructor: an empty catalog, the nine categories with empty member lists,
  the active category \<^verbatim>\<open>todos\<close>. The repository information comes from the page's
  address and is a parameter.\<close>

definition categoryKeys :: "string list" where
  "categoryKeys = [''DC'', ''DA'', ''RLM'', ''PT'', ''MT'', ''DPP'', ''DP'', ''INF'', ''GERAL'']"

definition cacheDuration :: int where
  "cacheDuration = 5 * 60 * 1000"

definition newPortal :: "RepoInfo \<Rightarrow> (string \<Rightarrow> 'd) \<Rightarrow> View option \<Rightarrow> Stored option \<Rightarrow> 'd Portal" where
  "newPortal repoInfo disp container stored =
     \<lparr> Portal.files = [],
       categories = map (\<lambda>k. (k, \<lparr> display = disp k, Category.files = [] \<rparr>)) categoryKeys,
       activeCategory = ''todos'',
       currentRepo = repoInfo,
       lastUpdate = None,
       filesContainer = container,
       localStorage = stored,
       trace = [] \<rparr>"

text \<open>The two kinds of result of \<^verbatim>\<open>extractRepoInfo\<close> in \<^verbatim>\<open>assets/js/main.js\<close>.\<close>

definition localRepo :: RepoInfo where
  "localRepo = \<lparr> owner = ''local'', repo = ''dev_notes'', branch = ''main'',
                 isLocal = True, useGitHubAPI = False \<rparr>"

definition pagesRepo :: "string \<Rightarrow> string \<Rightarrow> RepoInfo" where
  "pagesRepo ownerName repoName = \<lparr> owner = ownerName, repo = repoName, branch = ''main'',
                 isLocal = False, useGitHubAPI = True \<rparr>"


section \<open>Sorting and encoding\<close>

text \<open>
  \<^verbatim>\<open>Array.prototype.sort\<close> with a comparator is a stable sort. For a comparator that is a
  total preorder the stable sorted arrangement is unique, and insertion from the right
  computes it: an element goes before the first element that it does not exceed.
\<close>

fun insertBy :: "('a \<Rightarrow> 'a \<Rightarrow> int) \<Rightarrow> 'a \<Rightarrow> 'a list \<Rightarrow> 'a list" where
  "insertBy cmp x [] = [x]"
| "insertBy cmp x (y # ys) = (if cmp x y \<le> 0 then x # y # ys else y # insertBy cmp x ys)"

definition arraySort :: "('a \<Rightarrow> 'a \<Rightarrow> int) \<Rightarrow> 'a list \<Rightarrow> 'a list" where
  "arraySort cmp xs = foldr (insertBy cmp) xs []"

text \<open>\<^verbatim>\<open>encodeURIComponent\<close> on code units below 256: the unreserved characters stay, any
  other is written as the bytes of its UTF-8 form, each as \<^verbatim>\<open>%\<close> and two upper-case
  hexadecimal digits.\<close>

definition hexDigit :: "nat \<Rightarrow> char" where
  "hexDigit d = (if d < 10 then char_of (48 + d) else char_of (55 + d))"

definition percent :: "nat \<Rightarrow> string" where
  "percent b = [CHR ''%'', hexDigit (b div 16), hexDigit (b mod 16)]"

definition uriUnreserved :: "char \<Rightarrow> bool" where
  "uriUnreserved c = (isLetter c \<or> isDigit c \<or> c \<in> set (''-_.!~*()'' @ [CHR 0x27]))"

definition encodeChar :: "char \<Rightarrow> string" where
  "encodeChar c =
     (let n = (of_char c :: nat) in
      if uriUnreserved c then [c]
      else if n < 128 then percent n
      else percent (192 + n div 64) @ percent (128 + n mod 64))"

definition encodeURIComponent :: "string \<Rightarrow> string" where
  "encodeURIComponent s = concat (map encodeChar s)"


section \<open>The in-memory cache and the persisted store\<close>

text \<open>\<^verbatim>\<open>isCacheValid\<close>. \<^verbatim>\<open>this.lastUpdate\<close> is \<^verbatim>\<open>null\<close> or a number, and the first conjunct
  tests that it is truthy: not \<^verbatim>\<open>null\<close> and not zero. \<^verbatim>\<open>this.cacheDuration\<close> is set by the
  constructor and never changed. The argument \<open>now\<close> is the value of \<^verbatim>\<open>Date.now()\<close>.\<close>

definition isCacheValid :: "int \<Rightarrow> 'd Portal \<Rightarrow> bool" where
  "isCacheValid now s =
     (case lastUpdate s of
        None \<Rightarrow> False
      | Some t \<Rightarrow> t \<noteq> 0 \<and> now - t < cacheDuration \<and> length (Portal.files s) > 0)"

text \<open>\<^verbatim>\<open>setCachedData\<close>: the entry replaces the stored one; when \<^verbatim>\<open>setItem\<close> throws, the
  error is caught and the store keeps its value.\<close>

definition setCachedData :: "Env \<Rightarrow> NoteFile list \<Rightarrow> 'd Portal \<Rightarrow> 'd Portal" where
  "setCachedData env data s =
     (let cacheData = \<lparr> CacheData.files = data, timestamp = nowStored env, version = ''1.0.0'' \<rparr>
      in if storageFull env then s\<lparr> trace := trace s @ [StorageWrite] \<rparr>
         else s\<lparr> localStorage := Some (Parsed cacheData), trace := trace s @ [StorageWrite] \<rparr>)"

text \<open>\<^verbatim>\<open>getCachedData\<close>: \<^verbatim>\<open>null\<close> when the key is absent or its text does not parse; an
  entry older than one hour is removed and \<^verbatim>\<open>null\<close> is returned; otherwise the files of
  the entry.\<close>

definition getCachedData :: "Env \<Rightarrow> 'd Portal \<Rightarrow> NoteFile list option \<times> 'd Portal" where
  "getCachedData env s =
     (let s1 = s\<lparr> trace := trace s @ [StorageRead] \<rparr> in
      case localStorage s of
        None \<Rightarrow> (None, s1)
      | Some Unparsable \<Rightarrow> (None, s1)
      | Some (Parsed data) \<Rightarrow>
          if nowCached env - timestamp data > 3600000
          then (None, s1\<lparr> localStorage := None, trace := trace s1 @ [StorageRemove] \<rparr>)
          else (Some (CacheData.files data), s1))"


section \<open>Rendering\<close>

text \<open>The functions that only write to the page (\<^verbatim>\<open>renderCategoryTabs\<close>,
  \<^verbatim>\<open>updateStats\<close>, the animation of the cards) leave the state of the model as it is and
  are not written out.\<close>

definition getActiveFiles :: "'d Portal \<Rightarrow> NoteFile list" where
  "getActiveFiles s =
     (if activeCategory s = ''todos'' then Portal.files s
      else case map_of (categories s) (activeCategory s) of
             Some c \<Rightarrow> Category.files c
           | None \<Rightarrow> [])"

definition renderEmptyState :: "'d Portal \<Rightarrow> 'd Portal" where
  "renderEmptyState s = s\<lparr> filesContainer := Some EmptyState \<rparr>"

definition renderError :: "'d Portal \<Rightarrow> 'd Portal" where
  "renderError s = (if filesContainer s = None then s else s\<lparr> filesContainer := Some ErrorView \<rparr>)"

definition renderFiles :: "Env \<Rightarrow> 'd Portal \<Rightarrow> 'd Portal" where
  "renderFiles env s =
     (if filesContainer s = None then s
      else
        let activeFiles = getActiveFiles s in
        if length activeFiles = 0 then renderEmptyState s
        else setCachedData env (Portal.files s)
               (s\<lparr> filesContainer := Some (FilesGrid (map name activeFiles)) \<rparr>))"


section \<open>The static list: \<^verbatim>\<open>loadLocalFiles\<close>\<close>

definition knownFiles :: "string list" where
  "knownFiles =
     [''2025_08_08_RLM_001 - Estruturas logicas .html'',
      ''2025_08_08_RLM_002 - Estruturas logicas verdade mentira.html'',
      ''2025_06_25_DC_001 - Introducao a teoria geral dos direitos fundamentais fixacao.html'',
      ''2025_06_25_DC_002 - Caracteristicas dos direitos fundamentais fixacao.html'',
      ''2025_06_25_DC_003 - Classificacao dos direitos fundamentais fixacao.html'',
      ''2025_06_25_DC_004 - Eficacia e aplicacao.html'',
      ''2025_06_25_DC_005- Teoria dos Direitos Fundamentais Conte'' @ [CHR 0xFA] @
        ''do e Restri'' @ [CHR 0xE7] @ [CHR 0xF5] @ ''es.html'',
      ''2025_06_25_DC_006- Teoria dos Direitos Fundamentais Tratados Internacionais de Direitos Humanos.html'',
      ''2025_06_25_DC_007- Direito a vida fixacao.html'',
      ''2025_06_25_DC_008- Direito a liberdade fixacao.html'',
      ''2025_06_25_DC_009- Direito a liberdade de Expressao fixacao.html'',
      ''2025_06_25_DC_010- Direito a liberdade de Expressao fixacao.html'',
      ''2025_06_25_DC_011 - Aprofundamento - Eficacia dos direitos fundamentais.html'',
      ''2025_06_25_DC_012 - Liberdade religiosa fixacao.html'',
      ''2025_06_25_DC_013 - liberdade de locomocao fixacao.html'',
      ''2025_06_25_DC_014 - Liberdade de associacao  e reuniaofixacao.html'',
      ''2025_06_25_DC_015 - Direito a igualdade fixacao.html'',
      ''2025_06_25_DC_016 - igualdade entre homens e mulheres fixacao.html'',
      ''2025_06_25_DC_017 - Direito a privacidade fixacao.html'',
      ''2025_06_25_DC_018 - Direito a privacidade sigilo ao domicilio fixacao.html'',
      ''2025_06_25_DC_019 - Direito a privacidade sigilo de correspondencia fixacao.html'',
      ''2025_06_25_DC_020 - Direito a privavidade Sigilo bancario e fiscal fixacao.html'',
      ''2025_06_25_DC_021 - Direito a privavidade Sigilo de Dados e Comunica'' @ [CHR 0xE7] @
        [CHR 0xF5] @ ''es Telef'' @ [CHR 0xF4] @ ''nicas fixacao.html'',
      ''2025_06_25_DC_022 - Direito a propriedade fixacao.html'',
      ''2025_06_25_DC_023 - Direitos e Instrumentos de Cidadania perante o Estado e a Justi'' @
        [CHR 0xE7] @ ''a fixacao.html'',
      ''2025_06_25_DC_024 - Direitos individuais prote'' @ [CHR 0xE7] @ [CHR 0xE3] @
        ''o ao Direito Adquirido a Coisa Julgada e ao Ato Jur'' @ [CHR 0xED] @
        ''dico Perfeito juiz natural e juri popular fixacao.html'',
      ''2025_07_08_DC_025 - Principios constitucionais legalidade anterioridade fixacao.html'',
      ''2025_07_08_DC_026 - mandado de criminalizacao crimes hediondos e equiparaveis fixacao.html'',
      ''2025_07_08_DC_027 - Garantias penais relativas as pris'' @ [CHR 0xF5] @
        ''es fixacao.html'',
      ''2025_07_08_DC_028 - Garantias processuais dos presos fixacao.html'',
      ''2025_07_08_DC_029 - Garantias processuais dos presos fixacao.html'',
      ''2025_07_08_DC_030- Garantias fundamentais habeas corpus fixacao.html'',
      ''2025_07_08_DC_031- Garantias fundamentais habeas data.html'',
      ''2025_07_12_DC_032- Garantias fundamentais mandado de seguran'' @ [CHR 0xE7] @
        ''a parte I fixacao.html'',
      ''2025_07_14_DC_033 - Mandado de seguran'' @ [CHR 0xE7] @
        ''a parte II coletivo fixacao.html'',
      ''2025_07_14_DC_034 - Mandado de injuncao fixacao.html'',
      ''2025_07_14_DC_035 - Acao popular.html'',
      ''2025_07_14_DC_036 - Tratados internacionais sobre direitos humanos.html'',
      ''2025_07_15_DP_001 - Infracao penal fixacao.html'',
      ''2025_07_15_DP_002 - Fato tipico fixacao.html'',
      ''2025_07_15_DP_003 - Fato tipico conduta.html'',
      ''2025_07_16_DP_004 - Dolo.html'',
      ''2025_07_16_DP_005 - Culpa parte I.html'',
      ''2025_07_16_DP_006 - Culpa parte II.html'',
      ''2025_07_18_DP_007 - Resultado.html'',
      ''2025_07_18_DP_008 - Nexo causal parte I.html'',
      ''2025_07_18_DP_009 - Nexo causal parte II Concausas.html'']"

definition allKnownFiles :: "string list" where
  "allKnownFiles =
     [''2025_06_25_DC_001 - Introducao a teoria geral dos direitos fundamentais fixacao.html'',
      ''2025_06_25_DC_002 - Caracteristicas dos direitos fundamentais fixacao.html'',
      ''2025_06_25_DC_003 - Classificacao dos direitos fundamentais fixacao.html'',
      ''2025_06_25_DC_004 - Eficacia e aplicacao.html'',
      ''2025_06_25_DC_005- Teoria dos Direitos Fundamentais Conte'' @ [CHR 0xFA] @
        ''do e Restri'' @ [CHR 0xE7] @ [CHR 0xF5] @ ''es.html'',
      ''2025_06_25_DC_006- Teoria dos Direitos Fundamentais Tratados Internacionais de Direitos Humanos.html'',
      ''2025_06_25_DC_007- Direito a vida fixacao.html'',
      ''2025_06_25_DC_008- Direito a liberdade fixacao.html'',
      ''2025_06_25_DC_009- Direito a liberdade de Expressao fixacao.html'',
      ''2025_06_25_DC_010- Direito a liberdade de Expressao fixacao.html'',
      ''2025_06_25_DC_011 - Aprofundamento - Eficacia dos direitos fundamentais.html'',
      ''2025_06_25_DC_012 - Liberdade religiosa fixacao.html'',
      ''2025_06_25_DC_013 - liberdade de locomocao fixacao.html'',
      ''2025_06_25_DC_014 - Liberdade de associacao  e reuniaofixacao.html'',
      ''2025_06_25_DC_015 - Direito a igualdade fixacao.html'',
      ''2025_06_25_DC_016 - igualdade entre homens e mulheres fixacao.html'',
      ''2025_06_25_DC_017 - Direito a privacidade fixacao.html'',
      ''2025_06_25_DC_018 - Direito a privacidade sigilo ao domicilio fixacao.html'',
      ''2025_06_25_DC_019 - Direito a privacidade sigilo de correspondencia fixacao.html'',
      ''2025_06_25_DC_020 - Direito a privavidade Sigilo bancario e fiscal fixacao.html'',
      ''2025_06_25_DC_021 - Direito a privavidade Sigilo de Dados e Comunica'' @ [CHR 0xE7] @
        [CHR 0xF5] @ ''es Telef'' @ [CHR 0xF4] @ ''nicas fixacao.html'',
      ''2025_06_25_DC_022 - Direito a propriedade fixacao.html'',
      ''2025_06_25_DC_023 - Direitos e Instrumentos de Cidadania perante o Estado e a Justi'' @
        [CHR 0xE7] @ ''a fixacao.html'',
      ''2025_06_25_DC_024 - Direitos individuais prote'' @ [CHR 0xE7] @ [CHR 0xE3] @
        ''o ao Direito Adquirido a Coisa Julgada e ao Ato Jur'' @ [CHR 0xED] @
        ''dico Perfeito juiz natural e juri popular fixacao.html'',
      ''2025_07_08_DC_025 - Principios constitucionais legalidade anterioridade fixacao.html'',
      ''2025_07_08_DC_026 - mandado de criminalizacao crimes hediondos e equiparaveis fixacao.html'',
      ''2025_07_08_DC_027 - Garantias penais relativas as pris'' @ [CHR 0xF5] @
        ''es fixacao.html'',
      ''2025_07_08_DC_028 - Garantias processuais dos presos fixacao.html'',
      ''2025_07_08_DC_029 - Garantias processuais dos presos fixacao.html'',
      ''2025_07_08_DC_030- Garantias fundamentais habeas corpus fixacao.html'',
      ''2025_07_08_DC_031- Garantias fundamentais habeas data.html'',
      ''2025_07_12_DC_032- Garantias fundamentais mandado de seguran'' @ [CHR 0xE7] @
        ''a parte I fixacao.html'',
      ''2025_07_14_DC_033 - Mandado de seguran'' @ [CHR 0xE7] @
        ''a parte II coletivo fixacao.html'',
      ''2025_07_14_DC_034 - Mandado de injuncao fixacao.html'',
      ''2025_07_14_DC_035 - Acao popular.html'',
      ''2025_07_14_DC_036 - Tratados internacionais sobre direitos humanos.html'',
      ''2025_07_15_DP_001 - Infracao penal fixacao.html'',
      ''2025_07_15_DP_002 - Fato tipico fixacao.html'',
      ''2025_07_15_DP_003 - Fato tipico conduta.html'',
      ''2025_07_16_DP_004 - Dolo.html'',
      ''2025_07_16_DP_005 - Culpa parte I.html'',
      ''2025_07_16_DP_006 - Culpa parte II.html'',
      ''2025_07_18_DP_007 - Resultado.html'',
      ''2025_07_18_DP_008 - Nexo causal parte I.html'',
      ''2025_07_18_DP_009 - Nexo causal parte II Concausas.html'',
      ''exemplo-nota-interativa.html'']"

text \<open>The date that \<^verbatim>\<open>loadLocalFiles\<close> derives from a file name; \<^verbatim>\<open>new Date('2025-06-25')\<close>
  is midnight UTC of that day.\<close>

definition knownDate :: "Env \<Rightarrow> nat \<Rightarrow> string \<Rightarrow> int" where
  "knownDate env index fileName =
     (if includesStr fileName ''2025_06_25'' then 1750809600000
      else if includesStr fileName ''2025_07_08'' then 1751932800000
      else if includesStr fileName ''2025_07_12'' then 1752278400000
      else if includesStr fileName ''2025_07_14'' then 1752451200000
      else if includesStr fileName ''2025_07_15'' then 1752537600000
      else if includesStr fileName ''2025_07_16'' then 1752624000000
      else if includesStr fileName ''2025_07_18'' then 1752796800000
      else if includesStr fileName ''2025_08_08'' then 1754611200000
      else nowItem env index)"

definition localFile :: "Env \<Rightarrow> nat \<times> string \<Rightarrow> NoteFile" where
  "localFile env p =
     (case p of (index, fileName) \<Rightarrow>
        \<lparr> name = fileName,
          path = ''notes/'' @ fileName,
          fileSize = 8000 + int index * 1000,
          url = ''./notes/'' @ encodeURIComponent fileName,
          download_url = None,
          lastModified = knownDate env index fileName,
          source = None,
          category = None,
          numericOrder = None \<rparr>)"

text \<open>The comparator of the sorts in \<^verbatim>\<open>loadLocalFiles\<close> and \<^verbatim>\<open>debugLocalFiles\<close>.\<close>

definition byNumberThenName :: "Env \<Rightarrow> NoteFile \<Rightarrow> NoteFile \<Rightarrow> int" where
  "byNumberThenName env a b =
     (let numA = extractFileNumber (name a); numB = extractFileNumber (name b) in
      if numA \<noteq> numB then numA - numB
      else localeCompare env (name a) (name b))"

text \<open>\<^verbatim>\<open>/2025_(\d{2})_(\d{2})/\<close> at a fixed start position.\<close>

definition datePattern :: "string \<Rightarrow> string list option" where
  "datePattern s =
     (if prefix ''2025_'' s \<and> allDigits 2 (drop 5 s) \<and> prefix ''_'' (drop 7 s) \<and>
         allDigits 2 (drop 8 s)
      then Some [take 10 s, take 2 (drop 5 s), take 2 (drop 8 s)]
      else None)"

definition debugFile :: "Env \<Rightarrow> nat \<times> string \<Rightarrow> NoteFile" where
  "debugFile env p =
     (case p of (index, fileName) \<Rightarrow>
        \<lparr> name = fileName,
          path = ''notes/'' @ fileName,
          fileSize = 8000 + int index * 500,
          url = ''./notes/'' @ encodeURIComponent fileName,
          download_url = None,
          lastModified =
            (case firstMatch datePattern fileName of
               Some dateMatch \<Rightarrow>
                 localMidnight env 2025 (parseInt (dateMatch ! 1) - 1) (parseInt (dateMatch ! 2))
             | None \<Rightarrow> nowItem env index),
          source = Some ''local-complete-list'',
          category = None,
          numericOrder = None \<rparr>)"

definition debugLocalFiles :: "Env \<Rightarrow> 'd Portal \<Rightarrow> 'd Portal" where
  "debugLocalFiles env s =
     s\<lparr> Portal.files :=
          arraySort (byNumberThenName env) (map (debugFile env) (enumerate 0 allKnownFiles)) \<rparr>"

text \<open>
  \<^verbatim>\<open>discoverNewFiles\<close> builds the probes for the numbers that no known name has, runs the
  first ten, and adds what they find. \<^verbatim>\<open>testFileExists\<close> returns \<^verbatim>\<open>null\<close> on every path.
\<close>

definition testFileExists :: "string \<Rightarrow> string \<Rightarrow> NoteFile option" where
  "testFileExists sfx num = None"

definition digitChar :: "nat \<Rightarrow> char" where
  "digitChar d = char_of (48 + d mod 10)"

text \<open>\<^verbatim>\<open>i.toString().padStart(3, '0')\<close> for the numbers below 1000 that the probes use.\<close>

definition padStart3 :: "nat \<Rightarrow> string" where
  "padStart3 i = [digitChar (i div 100), digitChar (i div 10), digitChar i]"

definition probeRanges :: "(string \<times> nat \<times> nat) list" where
  "probeRanges = [(''_DC_'', 37, 50), (''_DP_'', 10, 30), (''_CC_'', 1, 20), (''_CP_'', 1, 20)]"

definition probes :: "string list \<Rightarrow> (string \<times> string) list" where
  "probes currentFileNames =
     concat (map (\<lambda>(marker, lo, hi).
        filter (\<lambda>(sfx, paddedNum). \<not> list_ex (\<lambda>n. includesStr n (sfx @ paddedNum)) currentFileNames)
          (map (\<lambda>i. (marker, padStart3 i)) [lo ..< Suc hi])) probeRanges)"

definition discoverNewFiles :: "'d Portal \<Rightarrow> 'd Portal" where
  "discoverNewFiles s =
     (let currentFileNames = map name (Portal.files s);
          newFiles = List.map_filter (\<lambda>(sfx, paddedNum). testFileExists sfx paddedNum)
                       (take 10 (probes currentFileNames))
      in if length newFiles > 0
         then s\<lparr> Portal.files :=
                arraySort (\<lambda>a b. lastModified b - lastModified a) (Portal.files s @ newFiles) \<rparr>
         else s)"

definition loadLocalFiles :: "Env \<Rightarrow> 'd Portal \<Rightarrow> 'd Portal" where
  "loadLocalFiles env s =
     (let s1 = s\<lparr> Portal.files :=
                   arraySort (byNumberThenName env) (map (localFile env) (enumerate 0 knownFiles)),
                 trace := trace s @ [StaticTable] \<rparr>;
          s2 = (if length (Portal.files s1) = 0 then debugLocalFiles env s1 else s1);
          s3 = (if length (Portal.files s2) < 40 then discoverNewFiles s2 else s2)
      in s3)"


section \<open>The remote listing: \<^verbatim>\<open>loadFromGitHub\<close>\<close>

definition apiUrl :: "RepoInfo \<Rightarrow> string" where
  "apiUrl r = ''https://api.github.com/repos/'' @ owner r @ ''/'' @ repo r @ ''/contents/notes''"

definition responseOk :: "nat \<Rightarrow> bool" where
  "responseOk status = (200 \<le> status \<and> status \<le> 299)"

definition isHtmlFile :: "RawEntry \<Rightarrow> bool" where
  "isHtmlFile e = (entryType e = ''file'' \<and> endsWith (entryName e) ''.html'')"

definition remoteFile :: "Env \<Rightarrow> RepoInfo \<Rightarrow> string option \<Rightarrow> nat \<times> RawEntry \<Rightarrow> NoteFile" where
  "remoteFile env r src p =
     (case p of (index, e) \<Rightarrow>
        \<lparr> name = entryName e,
          path = entryPath e,
          fileSize = entrySize e,
          url = ''https://'' @ owner r @ ''.github.io/'' @ repo r @ ''/'' @ entryPath e,
          download_url = entryDownloadUrl e,
          lastModified = nowItem env index,
          source = src,
          category = None,
          numericOrder = None \<rparr>)"

text \<open>
  \<^verbatim>\<open>loadFromGitHub\<close> of \<^verbatim>\<open>assets/js/main.js\<close>. Every failure, the status 404 among them, is
  thrown to the caller; the result is the thrown error, if any, and the state.
\<close>

definition loadFromGitHub :: "Env \<Rightarrow> 'd Portal \<Rightarrow> Thrown option \<times> 'd Portal" where
  "loadFromGitHub env s =
     (let s1 = s\<lparr> trace := trace s @ [Fetch (apiUrl (currentRepo s))] \<rparr> in
      case response env of
        NetworkError msg \<Rightarrow> (Some (FetchFailed msg), s1)
      | Response status statusText body \<Rightarrow>
          if \<not> responseOk status then
            (if status = 404 then (Some NotesFolderNotFound, s1)
             else (Some (HttpError status statusText), s1))
          else
            (case body of
               None \<Rightarrow> (Some BadBody, s1)
             | Some data \<Rightarrow>
                 (None, s1\<lparr> Portal.files :=
                    arraySort (\<lambda>a b. lastModified b - lastModified a)
                      (map (remoteFile env (currentRepo s) (Some ''github-api''))
                         (enumerate 0 (filter isHtmlFile data))) \<rparr>)))"


section \<open>\<^verbatim>\<open>categorizeFiles\<close>\<close>

definition clearCategories :: "(string \<times> 'd Category) list \<Rightarrow> (string \<times> 'd Category) list" where
  "clearCategories cats = map (\<lambda>(key, c). (key, c\<lparr> Category.files := [] \<rparr>)) cats"

text \<open>The loop that files every entry of \<^verbatim>\<open>this.files\<close>. Reading \<^verbatim>\<open>.files\<close> of a
  category that the table lacks would throw a \<^verbatim>\<open>TypeError\<close> and leave the table as it is
  at that point.\<close>

fun pushFiles :: "NoteFile list \<Rightarrow> (string \<times> 'd Category) list \<Rightarrow>
    Thrown option \<times> (string \<times> 'd Category) list" where
  "pushFiles [] cats = (None, cats)"
| "pushFiles (file # rest) cats =
     (let cat = detectFileCategory (name file) in
      case map_of cats cat of
        None \<Rightarrow> (Some (MissingCategory cat), cats)
      | Some c \<Rightarrow>
          pushFiles rest
            (AList.update cat
               (c\<lparr> Category.files := Category.files c @
                    [file\<lparr> category := Some cat,
                           numericOrder := Some (extractFileNumber (name file)) \<rparr>] \<rparr>)
               cats))"

text \<open>The comparator inside a category. Every member has a numeric order.\<close>

definition orderOf :: "NoteFile \<Rightarrow> int" where
  "orderOf f = (case numericOrder f of Some n \<Rightarrow> n | None \<Rightarrow> 0)"

definition byOrderThenName :: "Env \<Rightarrow> NoteFile \<Rightarrow> NoteFile \<Rightarrow> int" where
  "byOrderThenName env a b =
     (let numA = orderOf a; numB = orderOf b in
      if numA \<noteq> numB then numA - numB
      else localeCompare env (name a) (name b))"

text \<open>The comparator of the main list.\<close>

definition byCategoryThenNumber :: "Env \<Rightarrow> NoteFile \<Rightarrow> NoteFile \<Rightarrow> int" where
  "byCategoryThenNumber env a b =
     (let categoryA = detectFileCategory (name a); categoryB = detectFileCategory (name b);
          numA = extractFileNumber (name a); numB = extractFileNumber (name b) in
      if categoryA = categoryB \<and> numA \<noteq> numB then numA - numB
      else localeCompare env categoryA categoryB)"

definition sortCategories :: "Env \<Rightarrow> (string \<times> 'd Category) list \<Rightarrow> (string \<times> 'd Category) list" where
  "sortCategories env cats =
     map (\<lambda>(key, c). (key, c\<lparr> Category.files := arraySort (byOrderThenName env) (Category.files c) \<rparr>))
       cats"

definition categorizeFiles :: "Env \<Rightarrow> 'd Portal \<Rightarrow> Thrown option \<times> 'd Portal" where
  "categorizeFiles env s =
     (case pushFiles (Portal.files s) (clearCategories (categories s)) of
        (Some e, cats) \<Rightarrow> (Some e, s\<lparr> categories := cats \<rparr>)
      | (None, cats) \<Rightarrow>
          (None, s\<lparr> categories := sortCategories env cats,
                     Portal.files := arraySort (byCategoryThenNumber env) (Portal.files s) \<rparr>))"


section \<open>\<^verbatim>\<open>loadFiles\<close>\<close>

text \<open>
  \<^verbatim>\<open>loadFiles\<close> of \<^verbatim>\<open>assets/js/main.js\<close>. An error thrown by \<^verbatim>\<open>loadFromGitHub\<close> is caught
  by the inner \<^verbatim>\<open>try\<close> and answered with \<^verbatim>\<open>loadLocalFiles\<close>; an error thrown after that is
  caught by the outer \<^verbatim>\<open>try\<close> and rendered. \<^verbatim>\<open>loadFiles\<close> itself throws nothing.
\<close>

definition loadSource :: "Env \<Rightarrow> 'd Portal \<Rightarrow> 'd Portal" where
  "loadSource env s =
     (if \<not> useGitHubAPI (currentRepo s) \<or> isLocal (currentRepo s) then loadLocalFiles env s
      else
        case loadFromGitHub env s of
          (None, s') \<Rightarrow> s'
        | (Some githubError, s') \<Rightarrow> loadLocalFiles env s')"

definition loadFiles :: "bool \<Rightarrow> Env \<Rightarrow> 'd Portal \<Rightarrow> 'd Portal" where
  "loadFiles forceRefresh env s =
     (if filesContainer s = None then s
      else if \<not> forceRefresh \<and> isCacheValid (nowCheck env) s then renderFiles env s
      else
        let s1 = s\<lparr> filesContainer := Some LoadingView \<rparr>;
            s2 = loadSource env s1;
            s3 = s2\<lparr> lastUpdate := Some (nowLoaded env) \<rparr>
        in case categorizeFiles env s3 of
             (None, s4) \<Rightarrow> renderFiles env s4
           | (Some e, s4) \<Rightarrow> renderError s4)"


section \<open>The variant of the script in \<^verbatim>\<open>src/unnamed/part_000\<close>\<close>

text \<open>
  This file holds a variant of the same script without categories. Its loader differs:
  a local page gets three sample files, and \<^verbatim>\<open>loadFromGitHub\<close> throws nothing; the status
  404 empties the list and returns, any other failure empties the list and then reads
  the persisted store. Its functions carry the suffix \<open>0\<close>.
\<close>

definition mockFile :: "string \<Rightarrow> int \<Rightarrow> int \<Rightarrow> NoteFile" where
  "mockFile fileName bytes modified =
     \<lparr> name = fileName,
       path = ''notes/'' @ fileName,
       fileSize = bytes,
       url = ''./notes/'' @ fileName,
       download_url = None,
       lastModified = modified,
       source = None,
       category = None,
       numericOrder = None \<rparr>"

definition loadMockFiles :: "Env \<Rightarrow> 'd Portal \<Rightarrow> 'd Portal" where
  "loadMockFiles env s =
     s\<lparr> Portal.files :=
          [mockFile ''exemplo-nota-interativa.html'' 18750 (nowItem env 0),
           mockFile ''minha-primeira-nota.html'' 8420 (nowItem env 1 - 86400000),
           mockFile ''anotacoes-reuniao.html'' 12340 (nowItem env 2 - 172800000)],
        trace := trace s @ [StaticTable] \<rparr>"

definition cacheFallback0 :: "Env \<Rightarrow> 'd Portal \<Rightarrow> 'd Portal" where
  "cacheFallback0 env s =
     (case getCachedData env (s\<lparr> Portal.files := [] \<rparr>) of
        (Some cachedData, s') \<Rightarrow> s'\<lparr> Portal.files := cachedData \<rparr>
      | (None, s') \<Rightarrow> s')"

definition loadFromGitHub0 :: "Env \<Rightarrow> 'd Portal \<Rightarrow> 'd Portal" where
  "loadFromGitHub0 env s =
     (let s1 = s\<lparr> trace := trace s @ [Fetch (apiUrl (currentRepo s))] \<rparr> in
      case response env of
        NetworkError msg \<Rightarrow> cacheFallback0 env s1
      | Response status statusText body \<Rightarrow>
          if \<not> responseOk status then
            (if status = 404 then s1\<lparr> Portal.files := [] \<rparr>
             else cacheFallback0 env s1)
          else
            (case body of
               None \<Rightarrow> cacheFallback0 env s1
             | Some data \<Rightarrow>
                 s1\<lparr> Portal.files :=
                    arraySort (\<lambda>a b. localeCompare env (name a) (name b))
                      (map (remoteFile env (currentRepo s) None)
                         (enumerate 0 (filter isHtmlFile data))) \<rparr>))"

definition renderFiles0 :: "Env \<Rightarrow> 'd Portal \<Rightarrow> 'd Portal" where
  "renderFiles0 env s =
     (if filesContainer s = None then s
      else if length (Portal.files s) = 0 then renderEmptyState s
      else setCachedData env (Portal.files s)
             (s\<lparr> filesContainer := Some (FilesGrid (map name (Portal.files s))) \<rparr>))"

definition loadFiles0 :: "bool \<Rightarrow> Env \<Rightarrow> 'd Portal \<Rightarrow> 'd Portal" where
  "loadFiles0 forceRefresh env s =
     (if filesContainer s = None then s
      else if \<not> forceRefresh \<and> isCacheValid (nowCheck env) s then renderFiles0 env s
      else
        let s1 = s\<lparr> filesContainer := Some LoadingView \<rparr>;
            s2 = (if isLocal (currentRepo s1) then loadMockFiles env s1
                  else loadFromGitHub0 env s1);
            s3 = s2\<lparr> lastUpdate := Some (nowLoaded env) \<rparr>
        in renderFiles0 env s3)"


section \<open>Notions of the specification\<close>

text \<open>
  The specification speaks of a category code that occurs in the upper-cased file name
  \<^emph>\<open>flanked by a non-alphanumeric separator or a string boundary\<close>. \<open>delimited k u\<close> says
  so: \<open>k\<close> occurs in \<open>u\<close> at a position that is the start of \<open>u\<close> or follows a code unit
  that is neither a letter nor a digit, and the occurrence ends at the end of \<open>u\<close> or
  before such a code unit.
\<close>

definition isAlnum :: "char \<Rightarrow> bool" where
  "isAlnum c = (isDigit c \<or> isLetter c)"

definition freeAfter :: "string \<Rightarrow> bool" where
  "freeAfter r = (case r of [] \<Rightarrow> True | c # _ \<Rightarrow> \<not> isAlnum c)"

fun delimitedFrom :: "bool \<Rightarrow> string \<Rightarrow> string \<Rightarrow> bool" where
  "delimitedFrom free k [] = (free \<and> k = [])"
| "delimitedFrom free k (c # cs) =
     ((free \<and> prefix k (c # cs) \<and> freeAfter (drop (length k) (c # cs))) \<or>
      delimitedFrom (\<not> isAlnum c) k cs)"

definition delimited :: "string \<Rightarrow> string \<Rightarrow> bool" where
  "delimited k u = delimitedFrom True k u"

text \<open>
  A case variant of a name: the name with each code unit kept as it is or replaced by
  its upper-case or its lower-case form.
\<close>

fun caseVariant :: "cu list \<Rightarrow> cu list \<Rightarrow> bool" where
  "caseVariant [] v = (v = [])"
| "caseVariant (a # u) v =
     ((prefix [a] v \<and> caseVariant u (drop 1 v)) \<or>
      (prefix (upperUnit a) v \<and> caseVariant u (drop (length (upperUnit a)) v)) \<or>
      (prefix (lowerUnit a) v \<and> caseVariant u (drop (length (lowerUnit a)) v)))"

text \<open>
  The text that \<^verbatim>\<open>detectFileCategory\<close> looks for is made of ASCII characters other than
  the letter \<^verbatim>\<open>S\<close>, the one ASCII character that the upper case of a letter beyond ASCII
  contains.
\<close>

definition plain :: "char \<Rightarrow> bool" where
  "plain a = ((of_char a :: nat) < 128 \<and> a \<noteq> CHR ''S'')"

text \<open>All members of all categories, in the order of the table.\<close>

definition members :: "(string \<times> 'd Category) list \<Rightarrow> NoteFile list" where
  "members cats = concat (map (\<lambda>(key, c). Category.files c) cats)"

text \<open>A file object without the two properties that \<^verbatim>\<open>categorizeFiles\<close> adds to the
  copies it puts into the categories.\<close>

definition untagged :: "NoteFile \<Rightarrow> NoteFile" where
  "untagged f = f\<lparr> category := None, numericOrder := None \<rparr>"

text \<open>The copy of a file object that \<^verbatim>\<open>categorizeFiles\<close> puts into a category.\<close>

definition tagged :: "NoteFile \<Rightarrow> NoteFile" where
  "tagged f = f\<lparr> category := Some (detectFileCategory (name f)),
                  numericOrder := Some (extractFileNumber (name f)) \<rparr>"

text \<open>Every member of every category carries the key of that category, and the key is
  the category of its name.\<close>

definition wellTagged :: "(string \<times> 'd Category) list \<Rightarrow> bool" where
  "wellTagged cats =
     (\<forall>(key, c) \<in> set cats. \<forall>x \<in> set (Category.files c).
        category x = Some key \<and> detectFileCategory (name x) = key)"

text \<open>The catalog that the static table of \<^verbatim>\<open>loadLocalFiles\<close> gives.\<close>

definition staticCatalog :: "Env \<Rightarrow> NoteFile list" where
  "staticCatalog env =
     arraySort (byNumberThenName env) (map (localFile env) (enumerate 0 knownFiles))"

text \<open>The remote source fails: the request fails, the status is not a success, or the
  body is not an array of entries.\<close>

definition remoteFails :: "Env \<Rightarrow> bool" where
  "remoteFails env =
     (case response env of
        NetworkError msg \<Rightarrow> True
      | Response status statusText body \<Rightarrow> \<not> responseOk status \<or> body = None)"




section \<open>Sample inputs\<close>

text \<open>A collation for the examples: the order of the code units.\<close>

fun codeUnitCompare :: "string \<Rightarrow> string \<Rightarrow> int" where
  "codeUnitCompare [] [] = 0"
| "codeUnitCompare [] (y # ys) = -1"
| "codeUnitCompare (x # xs) [] = 1"
| "codeUnitCompare (x # xs) (y # ys) =
     (if (of_char x :: nat) < of_char y then -1
      else if (of_char y :: nat) < of_char x then 1
      else codeUnitCompare xs ys)"

definition sampleEnv :: "FetchResult \<Rightarrow> Env" where
  "sampleEnv r =
     \<lparr> response = r,
       nowCheck = 1762000000000,
       nowItem = (\<lambda>i. 1762000000500),
       nowLoaded = 1762000000600,
       nowStored = 1762000000700,
       nowCached = 1762000000550,
       localMidnight = (\<lambda>y m d. 0),
       localeCompare = codeUnitCompare,
       storageFull = False \<rparr>"

text \<open>A portal right after construction on a page that has the container element.\<close>

definition samplePortal :: "RepoInfo \<Rightarrow> Stored option \<Rightarrow> unit Portal" where
  "samplePortal r stored = newPortal r (\<lambda>k. ()) (Some Untouched) stored"

definition sampleFile :: NoteFile where
  "sampleFile = mockFile ''2025_07_15_DP_001 - Infracao penal fixacao.html'' 8000 1752537600000"

text \<open>A portal that holds one file, loaded at the time \<open>t\<close>.\<close>

definition loadedPortal :: "int \<Rightarrow> unit Portal" where
  "loadedPortal t =
     (samplePortal localRepo None)\<lparr> Portal.files := [sampleFile], lastUpdate := Some t \<rparr>"



section \<open>Case mapping\<close>

lemma of_char_upper: "isLower c \<Longrightarrow> (of_char (upperChar c) :: nat) = of_char c - 32"
  unfolding upperChar_def isLower_def Let_def by (auto simp: mod_if)

lemma upperChar_idem: "upperChar (upperChar c) = upperChar c"
proof (cases "isLower c")
  case True
  then have "\<not> isLower (upperChar c)"
    using of_char_upper[OF True] True unfolding isLower_def Let_def by arith
  then show ?thesis by (simp add: upperChar_def[of "upperChar c"])
next
  case False
  then show ?thesis by (simp add: upperChar_def)
qed

lemma toUpperCase_idem: "toUpperCase (toUpperCase s) = toUpperCase s"
  by (simp add: toUpperCase_def upperChar_idem)



section \<open>Properties of the categorizer\<close>

lemma delimitedFrom_here:
  "free \<Longrightarrow> k \<noteq> [] \<Longrightarrow> freeAfter r \<Longrightarrow> delimitedFrom free k (k @ r)"
  by (cases k) (simp_all)

lemma delimitedFrom_later:
  "delimitedFrom free k (pre @ d # k @ r)" if "\<not> isAlnum d" "k \<noteq> []" "freeAfter r"
  using that
proof (induction pre arbitrary: free)
  case Nil
  then show ?case using delimitedFrom_here[of "True" k r] by simp
next
  case (Cons a pre)
  then show ?case by simp
qed

lemma sublist_delimited:
  assumes "sublist (d # k @ [d']) u" "\<not> isAlnum d" "\<not> isAlnum d'" "k \<noteq> []"
  shows "delimited k u"
proof -
  from assms(1) obtain ps ss where "u = ps @ (d # k @ [d']) @ ss"
    by (auto simp: sublist_def)
  then have u: "u = ps @ d # k @ (d' # ss)" by simp
  show ?thesis unfolding delimited_def u
    by (rule delimitedFrom_later) (use assms in \<open>simp_all add: freeAfter_def\<close>)
qed

lemma prefix_delimited:
  assumes "prefix (k @ [d']) u" "\<not> isAlnum d'" "k \<noteq> []"
  shows "delimited k u"
proof -
  from assms(1) obtain ss where "u = (k @ [d']) @ ss" by (auto simp: prefix_def)
  then have u: "u = k @ (d' # ss)" by simp
  show ?thesis unfolding delimited_def u
    by (rule delimitedFrom_here) (use assms in \<open>simp_all add: freeAfter_def\<close>)
qed

lemma sep_not_alnum:
  "\<not> isAlnum CHR ''_''" "\<not> isAlnum CHR ''-''" "\<not> isAlnum CHR '' ''"
  by (simp_all add: isAlnum_def isDigit_def isLetter_def isUpper_def isLower_def)

lemma codeMatches_delimited:
  assumes "codeMatches u k" "k \<noteq> []"
  shows "delimited k u"
  using assms sep_not_alnum
  unfolding codeMatches_def includesStr_def startsWith_def
  by (auto intro: sublist_delimited prefix_delimited)

lemma priority_nonempty: "k \<in> set categoryPriority \<Longrightarrow> k \<noteq> []"
  by (auto simp: categoryPriority_def)

lemma geral_not_code: "''GERAL'' \<notin> set categoryPriority"
  by (simp add: categoryPriority_def)

lemma detect_cases:
  "(find (codeMatches (toUpperCase f)) categoryPriority = None \<and> detectFileCategory f = ''GERAL'') \<or>
   (\<exists>k. find (codeMatches (toUpperCase f)) categoryPriority = Some k \<and> detectFileCategory f = k)"
  by (cases "find (codeMatches (toUpperCase f)) categoryPriority") (simp_all add: detectFileCategory_def)

lemma find_Some_split:
  "find P xs = Some k \<Longrightarrow> \<exists>pre post. xs = pre @ k # post \<and> P k \<and> (\<forall>j\<in>set pre. \<not> P j)"
proof (induction xs)
  case Nil
  then show ?case by simp
next
  case (Cons x xs)
  show ?case
  proof (cases "P x")
    case True
    with Cons.prems have "x = k" by simp
    with True show ?thesis by (intro exI[of _ "[]"] exI[of _ xs]) simp
  next
    case False
    with Cons.prems have "find P xs = Some k" by simp
    from Cons.IH[OF this] obtain pre post where
      "xs = pre @ k # post" "P k" "\<forall>j\<in>set pre. \<not> P j" by blast
    with False show ?thesis by (intro exI[of _ "x # pre"] exI[of _ post]) simp
  qed
qed

lemma find_Some_mem: "find P xs = Some k \<Longrightarrow> k \<in> set xs"
  by (induction xs) (auto split: if_splits)

text \<open>
  Claim C3, as the code has it. \<^verbatim>\<open>detectFileCategory\<close> looks for a code only in five
  forms: \<^verbatim>\<open>_K_\<close>, \<^verbatim>\<open>-K-\<close> and \<^verbatim>\<open> K \<close> anywhere, \<^verbatim>\<open>K_\<close> and \<^verbatim>\<open>K-\<close> at the start.
  When the result is not \<^verbatim>\<open>GERAL\<close> it is the first code of the priority list that
  occurs in one of these forms, and that code is delimiter-bounded in the upper-cased
  name, so a code that occurs only inside a word never matches. When some code of the
  list occurs in one of the forms the result is a code of the list. A name in which no
  code of the list is delimiter-bounded maps to \<^verbatim>\<open>GERAL\<close>.
\<close>

theorem detectFileCategory_delimited:
  "(detectFileCategory f \<noteq> ''GERAL'' \<longrightarrow>
      (\<exists>pre post. categoryPriority = pre @ detectFileCategory f # post \<and>
         codeMatches (toUpperCase f) (detectFileCategory f) \<and>
         (\<forall>j\<in>set pre. \<not> codeMatches (toUpperCase f) j)) \<and>
      delimited (detectFileCategory f) (toUpperCase f)) \<and>
   ((\<exists>k\<in>set categoryPriority. codeMatches (toUpperCase f) k) \<longrightarrow>
      detectFileCategory f \<in> set categoryPriority) \<and>
   ((\<forall>k\<in>set categoryPriority. \<not> delimited k (toUpperCase f)) \<longrightarrow>
      detectFileCategory f = ''GERAL'')"
proof (intro conjI impI)
  assume ng: "detectFileCategory f \<noteq> ''GERAL''"
  with detect_cases[of f] obtain k where
    k: "find (codeMatches (toUpperCase f)) categoryPriority = Some k" "detectFileCategory f = k"
    by auto
  from find_Some_split[OF k(1)] obtain pre post where
    sp: "categoryPriority = pre @ k # post" "codeMatches (toUpperCase f) k"
        "\<forall>j\<in>set pre. \<not> codeMatches (toUpperCase f) j" by blast
  then show "\<exists>pre post. categoryPriority = pre @ detectFileCategory f # post \<and>
         codeMatches (toUpperCase f) (detectFileCategory f) \<and>
         (\<forall>j\<in>set pre. \<not> codeMatches (toUpperCase f) j)"
    unfolding k(2) by blast
  have "k \<in> set categoryPriority" unfolding sp(1) by simp
  then show "delimited (detectFileCategory f) (toUpperCase f)"
    unfolding k(2) using codeMatches_delimited[OF sp(2)] priority_nonempty by blast
next
  assume "\<exists>k\<in>set categoryPriority. codeMatches (toUpperCase f) k"
  then have "find (codeMatches (toUpperCase f)) categoryPriority \<noteq> None"
    unfolding find_None_iff by blast
  with detect_cases[of f] obtain k where
    k: "find (codeMatches (toUpperCase f)) categoryPriority = Some k" "detectFileCategory f = k"
    by auto
  from find_Some_mem[OF k(1)] show "detectFileCategory f \<in> set categoryPriority"
    unfolding k(2) .
next
  assume none: "\<forall>k\<in>set categoryPriority. \<not> delimited k (toUpperCase f)"
  have "find (codeMatches (toUpperCase f)) categoryPriority = None"
    unfolding find_None_iff using none codeMatches_delimited priority_nonempty by blast
  with detect_cases[of f] show "detectFileCategory f = ''GERAL''" by auto
qed




theorem detectFileCategory_delimited_witness:
  "detectFileCategory ''2025_07_15_DP_001 - Infracao penal fixacao.html'' = ''DP'' \<and>
   delimited ''DP'' (toUpperCase ''2025_07_15_DP_001 - Infracao penal fixacao.html'') \<and>
   list_all (\<lambda>k. \<not> delimited k (toUpperCase ''exemplo-nota-interativa.html'')) categoryPriority \<and>
   detectFileCategory ''exemplo-nota-interativa.html'' = ''GERAL''"
proof -
  let ?f = "''2025_07_15_DP_001 - Infracao penal fixacao.html''"
  let ?g = "''exemplo-nota-interativa.html''"
  have v: "detectFileCategory ?f = ''DP''" by code_simp
  then have ng: "detectFileCategory ?f \<noteq> ''GERAL''" by simp
  have none: "list_all (\<lambda>k. \<not> delimited k (toUpperCase ?g)) categoryPriority" by code_simp
  then have none': "\<forall>k\<in>set categoryPriority. \<not> delimited k (toUpperCase ?g)"
    by (simp add: list_all_iff)
  from detectFileCategory_delimited[of ?f] ng
  have "delimited (detectFileCategory ?f) (toUpperCase ?f)" by blast
  then have d: "delimited ''DP'' (toUpperCase ?f)" unfolding v .
  from detectFileCategory_delimited[of ?g] none'
  have "detectFileCategory ?g = ''GERAL''" by blast
  with v d none show ?thesis by blast
qed

text \<open>
  Claim C3 as stated fails: in \<^verbatim>\<open>2025_06_25_DC-005.html\<close> the code \<^verbatim>\<open>DC\<close> is flanked by
  the separators \<^verbatim>\<open>_\<close> and \<^verbatim>\<open>-\<close>, yet the name is put into \<^verbatim>\<open>GERAL\<close>, because the two
  separators differ.
\<close>

theorem detectFileCategory_delimited_counterexample:
  "delimited ''DC'' (toUpperCase ''2025_06_25_DC-005.html'') \<and>
   detectFileCategory ''2025_06_25_DC-005.html'' = ''GERAL''"
  by code_simp

lemma sublist_map_mono: "sublist xs ys \<Longrightarrow> sublist (map h xs) (map h ys)"
  unfolding sublist_def by (metis map_append)

lemma upper_marker: "toUpperCase ''_DPP_'' = ''_DPP_''" by code_simp

text \<open>
  Claim C4. Every file name that contains the marker \<^verbatim>\<open>_DPP_\<close> is classified as
  \<^verbatim>\<open>DPP\<close> and not as \<^verbatim>\<open>DP\<close>; in particular the name
  \<^verbatim>\<open>2025_07_08_DPP_001 - x.html\<close> is.
\<close>

theorem detectFileCategory_DPP:
  "(includesStr f ''_DPP_'' \<longrightarrow> detectFileCategory f = ''DPP'' \<and> detectFileCategory f \<noteq> ''DP'') \<and>
   detectFileCategory ''2025_07_08_DPP_001 - x.html'' = ''DPP''"
proof (intro conjI impI)
  assume "includesStr f ''_DPP_''"
  then have "sublist (map upperChar ''_DPP_'') (map upperChar f)"
    unfolding includesStr_def by (rule sublist_map_mono)
  then have "sublist ''_DPP_'' (toUpperCase f)"
    using upper_marker by (simp add: toUpperCase_def)
  then have "codeMatches (toUpperCase f) ''DPP''"
    by (simp add: codeMatches_def includesStr_def)
  then show "detectFileCategory f = ''DPP''"
    by (simp add: detectFileCategory_def categoryPriority_def)
  then show "detectFileCategory f \<noteq> ''DP''" by simp
next
  show "detectFileCategory ''2025_07_08_DPP_001 - x.html'' = ''DPP''" by code_simp
qed


theorem detectFileCategory_DPP_witness:
  "includesStr ''2025_09_01_DPP_002 - Inquerito policial.html'' ''_DPP_'' \<and>
   detectFileCategory ''2025_09_01_DPP_002 - Inquerito policial.html'' = ''DPP''"
proof -
  have h: "includesStr ''2025_09_01_DPP_002 - Inquerito policial.html'' ''_DPP_''"
    by code_simp
  from detectFileCategory_DPP[of "''2025_09_01_DPP_002 - Inquerito policial.html''"] h
  show ?thesis by blast
qed

lemma toUpperCaseW_simps:
  "toUpperCaseW [] = []"
  "toUpperCaseW (a # u) = upperUnit a @ toUpperCaseW u"
  "toUpperCaseW (u @ v) = toUpperCaseW u @ toUpperCaseW v"
  by (simp_all add: toUpperCaseW_def)

lemma toLowerCaseW_simps:
  "toLowerCaseW [] = []"
  "toLowerCaseW (a # u) = lowerUnit a @ toLowerCaseW u"
  by (simp_all add: toLowerCaseW_def)

lemma of_char_S: "(of_char CHR ''S'' :: nat) = 83"
  by simp

lemma upperUnit_below:
  "(of_char d :: nat) < 181 \<Longrightarrow> \<not> isLower d \<Longrightarrow> upperUnit (Latin1 d) = [Latin1 d]"
  by (auto simp: Let_def)

lemma upperUnit_capital:
  "192 \<le> (of_char d :: nat) \<Longrightarrow> (of_char d :: nat) \<le> 222 \<Longrightarrow>
   upperUnit (Latin1 d) = [Latin1 d]"
  by (auto simp: Let_def isLower_def)

lemma upperUnit_other:
  "\<not> isLower c \<Longrightarrow> (of_char c :: nat) \<noteq> 181 \<Longrightarrow> (of_char c :: nat) \<noteq> 223 \<Longrightarrow>
   \<not> (224 \<le> (of_char c :: nat) \<and> (of_char c :: nat) \<le> 254 \<and> (of_char c :: nat) \<noteq> 247) \<Longrightarrow>
   (of_char c :: nat) \<noteq> 255 \<Longrightarrow> upperUnit (Latin1 c) = [Latin1 c]"
  by (auto simp: Let_def)

lemma upper_of_upperUnit: "toUpperCaseW (upperUnit a) = upperUnit a"
proof (cases a)
  case (Latin1 c)
  let ?n = "of_char c :: nat"
  have lt: "?n < 256" by simp
  consider (lower) "isLower c"
    | (mu) "\<not> isLower c" "?n = 181"
    | (sharp) "\<not> isLower c" "?n = 223"
    | (letter) "\<not> isLower c" "224 \<le> ?n" "?n \<le> 254" "?n \<noteq> 247"
    | (y) "\<not> isLower c" "?n = 255"
    | (other) "\<not> isLower c" "?n \<noteq> 181" "?n \<noteq> 223" "\<not> (224 \<le> ?n \<and> ?n \<le> 254 \<and> ?n \<noteq> 247)"
        "?n \<noteq> 255"
    by fastforce
  then show ?thesis
  proof cases
    case lower
    then have u: "upperUnit a = [Latin1 (upperChar c)]" by (simp add: Latin1)
    have m: "(of_char (upperChar c) :: nat) = ?n - 32" by (rule of_char_upper[OF lower])
    from lower have r: "97 \<le> ?n" "?n \<le> 122" by (simp_all add: isLower_def Let_def)
    have nl: "\<not> isLower (upperChar c)" using m r by (simp add: isLower_def Let_def)
    have lt181: "(of_char (upperChar c) :: nat) < 181" using m r by arith
    have "upperUnit (Latin1 (upperChar c)) = [Latin1 (upperChar c)]"
      by (rule upperUnit_below[OF lt181 nl])
    then show ?thesis by (simp add: u toUpperCaseW_simps)
  next
    case mu
    then show ?thesis by (simp add: Latin1 toUpperCaseW_simps)
  next
    case sharp
    have "\<not> isLower CHR ''S''" by (simp add: isLower_def Let_def)
    then have "upperUnit (Latin1 CHR ''S'') = [Latin1 CHR ''S'']"
      by (intro upperUnit_below) simp_all
    with sharp show ?thesis by (simp add: Latin1 toUpperCaseW_simps)
  next
    case letter
    then have u: "upperUnit a = [Latin1 (char_of (?n - 32))]" by (simp add: Latin1)
    have m: "(of_char (char_of (?n - 32) :: char) :: nat) = ?n - 32"
      using letter by (simp add: mod_if)
    have "upperUnit (Latin1 (char_of (?n - 32))) = [Latin1 (char_of (?n - 32))]"
      by (rule upperUnit_capital) (use m letter in arith)+
    then show ?thesis by (simp add: u toUpperCaseW_simps)
  next
    case y
    then show ?thesis by (simp add: Latin1 toUpperCaseW_simps)
  next
    case other
    then have "upperUnit (Latin1 c) = [Latin1 c]" by (intro upperUnit_other)
    then show ?thesis using Latin1 by (simp add: toUpperCaseW_simps)
  qed
qed (simp_all add: toUpperCaseW_simps)

lemma upper_of_lowerUnit: "toUpperCaseW (lowerUnit a) = upperUnit a"
proof (cases a)
  case (Latin1 c)
  let ?n = "of_char c :: nat"
  consider (upper) "isUpper c"
    | (letter) "\<not> isUpper c" "192 \<le> ?n" "?n \<le> 222" "?n \<noteq> 215"
    | (other) "\<not> isUpper c" "\<not> (192 \<le> ?n \<and> ?n \<le> 222 \<and> ?n \<noteq> 215)"
    by fastforce
  then show ?thesis
  proof cases
    case upper
    then have r: "65 \<le> ?n" "?n \<le> 90" by (simp_all add: isUpper_def Let_def)
    have l: "lowerUnit a = [Latin1 (char_of (?n + 32))]" using upper by (simp add: Latin1)
    have m: "(of_char (char_of (?n + 32) :: char) :: nat) = ?n + 32" using r by simp
    have low: "isLower (char_of (?n + 32))" using m r by (simp add: isLower_def Let_def)
    have "upperChar (char_of (?n + 32)) = c" using low m by (simp add: upperChar_def)
    then have "upperUnit (Latin1 (char_of (?n + 32))) = [Latin1 c]" using low by simp
    moreover have "upperUnit a = [Latin1 c]" unfolding Latin1
      by (rule upperUnit_below) (use r in \<open>simp_all add: isLower_def Let_def\<close>)
    ultimately show ?thesis by (simp add: l toUpperCaseW_simps)
  next
    case letter
    have l: "lowerUnit a = [Latin1 (char_of (?n + 32))]" using letter by (simp add: Latin1)
    have m: "(of_char (char_of (?n + 32) :: char) :: nat) = ?n + 32" using letter by simp
    have low: "\<not> isLower (char_of (?n + 32))" using m letter by (simp add: isLower_def Let_def)
    have "upperUnit (Latin1 (char_of (?n + 32))) = [Latin1 (char_of (?n + 32 - 32))]"
      using low m letter by (auto simp: Let_def)
    then have "upperUnit (Latin1 (char_of (?n + 32))) = [Latin1 c]" by simp
    moreover have "upperUnit a = [Latin1 c]" unfolding Latin1
      by (rule upperUnit_capital) (use letter in arith)+
    ultimately show ?thesis by (simp add: l toUpperCaseW_simps)
  next
    case other
    then have "lowerUnit a = [Latin1 c]" by (auto simp: Latin1)
    then show ?thesis using Latin1 by (simp add: toUpperCaseW_simps)
  qed
next
  case U0178
  have "\<not> isLower (CHR 0xFF)" by (simp add: isLower_def Let_def)
  then show ?thesis using U0178 by (simp add: toUpperCaseW_simps Let_def)
qed (simp_all add: toUpperCaseW_simps)

lemma toUpperCaseW_idem: "toUpperCaseW (toUpperCaseW u) = toUpperCaseW u"
  by (induction u) (simp_all add: toUpperCaseW_simps upper_of_upperUnit)

lemma toUpperCaseW_lower: "toUpperCaseW (toLowerCaseW u) = toUpperCaseW u"
  by (induction u) (simp_all add: toUpperCaseW_simps toLowerCaseW_simps upper_of_lowerUnit)

lemma caseVariant_upper: "caseVariant u v \<Longrightarrow> toUpperCaseW v = toUpperCaseW u"
proof (induction u arbitrary: v)
  case Nil
  then show ?case by simp
next
  case (Cons a u)
  have step: "toUpperCaseW v = toUpperCaseW (a # u)"
    if p: "prefix w v" and c: "caseVariant u (drop (length w) v)"
      and w: "toUpperCaseW w = upperUnit a" for w
  proof -
    from p have "v = w @ drop (length w) v" by (auto simp: prefix_def)
    then have "toUpperCaseW v = toUpperCaseW w @ toUpperCaseW (drop (length w) v)"
      by (metis toUpperCaseW_simps(3))
    also have "\<dots> = upperUnit a @ toUpperCaseW u" using Cons.IH[OF c] w by simp
    finally show ?thesis by (simp add: toUpperCaseW_simps)
  qed
  from Cons.prems consider
      "prefix [a] v" "caseVariant u (drop (length [a]) v)"
    | "prefix (upperUnit a) v" "caseVariant u (drop (length (upperUnit a)) v)"
    | "prefix (lowerUnit a) v" "caseVariant u (drop (length (lowerUnit a)) v)"
    by auto
  then show ?case
  proof cases
    case 1
    then show ?thesis by (rule step) (simp add: toUpperCaseW_simps)
  next
    case 2
    then show ?thesis by (rule step) (rule upper_of_upperUnit)
  next
    case 3
    then show ?thesis by (rule step) (rule upper_of_lowerUnit)
  qed
qed

lemma upperUnit_Latin1_cases:
  "upperUnit (Latin1 c) = [Latin1 (upperChar c)] \<or>
   (upperChar c = c \<and> 128 \<le> (of_char c :: nat) \<and> upperUnit (Latin1 c) \<noteq> [] \<and>
    (\<forall>a. plain a \<longrightarrow> Latin1 a \<notin> set (upperUnit (Latin1 c))))"
proof -
  let ?n = "of_char c :: nat"
  consider (lower) "isLower c"
    | (mu) "\<not> isLower c" "?n = 181"
    | (sharp) "\<not> isLower c" "?n = 223"
    | (letter) "\<not> isLower c" "224 \<le> ?n" "?n \<le> 254" "?n \<noteq> 247"
    | (y) "\<not> isLower c" "?n = 255"
    | (other) "\<not> isLower c" "?n \<noteq> 181" "?n \<noteq> 223" "\<not> (224 \<le> ?n \<and> ?n \<le> 254 \<and> ?n \<noteq> 247)"
        "?n \<noteq> 255"
    by fastforce
  then show ?thesis
  proof cases
    case lower
    then show ?thesis by simp
  next
    case mu
    then show ?thesis by (simp add: upperChar_def)
  next
    case sharp
    then show ?thesis by (auto simp: upperChar_def plain_def)
  next
    case letter
    have m: "(of_char (char_of (?n - 32) :: char) :: nat) = ?n - 32"
      using letter by (simp add: mod_if)
    have "\<not> (of_char (char_of (?n - 32) :: char) :: nat) < 128"
      unfolding m using letter by arith
    then have "\<not> plain (char_of (?n - 32))" by (simp only: plain_def simp_thms)
    then show ?thesis using letter by (auto simp: upperChar_def)
  next
    case y
    then show ?thesis by (simp add: upperChar_def)
  next
    case other
    then have "upperUnit (Latin1 c) = [Latin1 c]" by (intro upperUnit_other)
    with other(1) show ?thesis by (simp add: upperChar_def)
  qed
qed

lemma units_simps:
  "units [] = []" "units (a # p) = Latin1 a # units p" "units (p @ q) = units p @ units q"
  by (simp_all add: units_def)

lemma prefix_skip:
  assumes "ys \<noteq> []" "\<forall>a. plain a \<longrightarrow> Latin1 a \<notin> set ys" "p \<noteq> []" "list_all plain p"
  shows "\<not> prefix (units p) (ys @ w)"
proof -
  obtain a p' where p: "p = a # p'" using assms(3) by (cases p) auto
  obtain y ys' where ys: "ys = y # ys'" using assms(1) by (cases ys) auto
  from assms(4) p have "plain a" by simp
  with assms(2) ys have "Latin1 a \<noteq> y" by auto
  then show ?thesis by (simp add: p ys units_simps)
qed

lemma sublist_skip:
  assumes "\<forall>a. plain a \<longrightarrow> Latin1 a \<notin> set ys" "p \<noteq> []" "list_all plain p"
  shows "sublist (units p) (ys @ w) \<longleftrightarrow> sublist (units p) w"
  using assms(1)
proof (induction ys)
  case Nil
  then show ?case by simp
next
  case (Cons y ys)
  then have ih: "sublist (units p) (ys @ w) \<longleftrightarrow> sublist (units p) w" by simp
  have "\<not> prefix (units p) ((y # ys) @ w)"
    by (rule prefix_skip[OF _ Cons.prems assms(2,3)]) simp
  then show ?case using ih by (simp add: sublist_Cons_right)
qed

lemma prefix_agree:
  "list_all plain p \<Longrightarrow>
   prefix (units p) (toUpperCaseW (units f)) \<longleftrightarrow> prefix p (toUpperCase f)"
proof (induction f arbitrary: p)
  case Nil
  then show ?case by (simp add: units_simps toUpperCaseW_simps toUpperCase_def units_def)
next
  case (Cons c f)
  show ?case
  proof (cases p)
    case Nil
    then show ?thesis by (simp add: units_simps)
  next
    case (Cons a p')
    with Cons.prems have pa: "plain a" and pp: "list_all plain p'" by simp_all
    from upperUnit_Latin1_cases[of c] show ?thesis
    proof
      assume "upperUnit (Latin1 c) = [Latin1 (upperChar c)]"
      then show ?thesis using Cons.IH[OF pp]
        by (simp add: Cons units_simps toUpperCaseW_simps toUpperCase_def)
    next
      assume b: "upperChar c = c \<and> 128 \<le> (of_char c :: nat) \<and> upperUnit (Latin1 c) \<noteq> [] \<and>
        (\<forall>a. plain a \<longrightarrow> Latin1 a \<notin> set (upperUnit (Latin1 c)))"
      have "\<not> prefix (units p) (upperUnit (Latin1 c) @ toUpperCaseW (units f))"
        by (rule prefix_skip) (use b Cons Cons.prems in simp_all)
      moreover have "a \<noteq> c" using pa b by (auto simp: plain_def)
      ultimately show ?thesis using b
        by (simp add: Cons units_simps toUpperCaseW_simps toUpperCase_def)
    qed
  qed
qed

lemma sublist_agree:
  assumes "p \<noteq> []" "list_all plain p"
  shows "sublist (units p) (toUpperCaseW (units f)) \<longleftrightarrow> sublist p (toUpperCase f)"
proof (induction f)
  case Nil
  then show ?case using assms(1) by (simp add: units_simps toUpperCaseW_simps toUpperCase_def units_def)
next
  case (Cons c f)
  have pre: "prefix (units p) (toUpperCaseW (units (c # f))) \<longleftrightarrow> prefix p (toUpperCase (c # f))"
    by (rule prefix_agree[OF assms(2)])
  from upperUnit_Latin1_cases[of c] show ?case
  proof
    assume a: "upperUnit (Latin1 c) = [Latin1 (upperChar c)]"
    then have w: "toUpperCaseW (units (c # f)) = Latin1 (upperChar c) # toUpperCaseW (units f)"
      by (simp add: units_simps toUpperCaseW_simps)
    have n: "toUpperCase (c # f) = upperChar c # toUpperCase f" by (simp add: toUpperCase_def)
    show ?thesis using pre Cons.IH unfolding w n by (simp add: sublist_Cons_right)
  next
    assume b: "upperChar c = c \<and> 128 \<le> (of_char c :: nat) \<and> upperUnit (Latin1 c) \<noteq> [] \<and>
        (\<forall>a. plain a \<longrightarrow> Latin1 a \<notin> set (upperUnit (Latin1 c)))"
    have w: "toUpperCaseW (units (c # f)) = upperUnit (Latin1 c) @ toUpperCaseW (units f)"
      by (simp add: units_simps toUpperCaseW_simps)
    have n: "toUpperCase (c # f) = c # toUpperCase f" using b by (simp add: toUpperCase_def)
    have s: "sublist (units p) (upperUnit (Latin1 c) @ toUpperCaseW (units f)) \<longleftrightarrow>
        sublist (units p) (toUpperCaseW (units f))"
      by (rule sublist_skip) (use b assms in simp_all)
    obtain a p' where p: "p = a # p'" using assms(1) by (cases p) auto
    with assms(2) have "plain a" by simp
    then have "a \<noteq> c" using b by (auto simp: plain_def)
    then have np: "\<not> prefix p (c # toUpperCase f)" by (simp add: p)
    show ?thesis unfolding w n using s np Cons.IH by (simp add: sublist_Cons_right)
  qed
qed

lemma plain_text:
  "list_all (\<lambda>k. k \<noteq> [] \<and> list_all plain k) categoryPriority"
  "plain CHR ''_''" "plain CHR ''-''" "plain CHR '' ''"
  by code_simp+

lemma codeMatches_agree:
  assumes "k \<in> set categoryPriority"
  shows "codeMatchesW (toUpperCaseW (units f)) k \<longleftrightarrow> codeMatches (toUpperCase f) k"
proof -
  from assms plain_text(1) have k: "list_all plain k" by (auto simp: list_all_iff)
  have s: "sublist (units ([d] @ k @ [d])) (toUpperCaseW (units f)) \<longleftrightarrow>
      sublist ([d] @ k @ [d]) (toUpperCase f)" if "plain d" for d
    by (rule sublist_agree) (use that k in simp_all)
  have p: "prefix (units (k @ [d])) (toUpperCaseW (units f)) \<longleftrightarrow>
      prefix (k @ [d]) (toUpperCase f)" if "plain d" for d
    by (rule prefix_agree) (use that k in simp_all)
  show ?thesis
    unfolding codeMatchesW_def codeMatches_def includesStr_def startsWith_def
    using s[OF plain_text(2)] s[OF plain_text(3)] s[OF plain_text(4)]
      p[OF plain_text(2)] p[OF plain_text(3)]
    by simp
qed

lemma detectFileCategoryW_units: "detectFileCategoryW (units f) = detectFileCategory f"
proof -
  have "find (codeMatchesW (toUpperCaseW (units f))) categoryPriority =
      find (codeMatches (toUpperCase f)) categoryPriority"
    by (rule find_cong) (simp_all add: codeMatches_agree)
  then show ?thesis by (simp add: detectFileCategoryW_def detectFileCategory_def)
qed

text \<open>
  Claim C10. \<^verbatim>\<open>detectFileCategory\<close> does not depend on the letter case of its input.
  On the names over \<open>cu\<close>, which are the names in Latin-1 and what the case mappings of
  JavaScript make of them: two names of which one is a case variant of the other get
  the same category, and a name, its lower-cased form and its upper-cased form get the
  same category. On a name \<open>f\<close> in Latin-1 the function is \<open>detectFileCategory\<close>, so
  every case variant of a file name of the catalog gets the category of that name.
\<close>

theorem detectFileCategory_case_insensitive:
  "(caseVariant u v \<or> caseVariant v u \<longrightarrow> detectFileCategoryW u = detectFileCategoryW v) \<and>
   detectFileCategoryW (toLowerCaseW u) = detectFileCategoryW u \<and>
   detectFileCategoryW (toUpperCaseW u) = detectFileCategoryW u \<and>
   detectFileCategoryW (units f) = detectFileCategory f \<and>
   (caseVariant (units f) v \<or> caseVariant v (units f) \<longrightarrow>
      detectFileCategoryW v = detectFileCategory f)"
proof (intro conjI impI)
  assume "caseVariant u v \<or> caseVariant v u"
  then have "toUpperCaseW u = toUpperCaseW v" using caseVariant_upper by metis
  then show "detectFileCategoryW u = detectFileCategoryW v"
    by (simp add: detectFileCategoryW_def)
next
  show "detectFileCategoryW (toLowerCaseW u) = detectFileCategoryW u"
    by (simp add: detectFileCategoryW_def toUpperCaseW_lower)
  show "detectFileCategoryW (toUpperCaseW u) = detectFileCategoryW u"
    by (simp add: detectFileCategoryW_def toUpperCaseW_idem)
  show "detectFileCategoryW (units f) = detectFileCategory f"
    by (rule detectFileCategoryW_units)
next
  assume "caseVariant (units f) v \<or> caseVariant v (units f)"
  then have "toUpperCaseW v = toUpperCaseW (units f)" using caseVariant_upper by metis
  then have "detectFileCategoryW v = detectFileCategoryW (units f)"
    by (simp add: detectFileCategoryW_def)
  then show "detectFileCategoryW v = detectFileCategory f"
    by (simp add: detectFileCategoryW_units)
qed

theorem detectFileCategory_case_insensitive_witness:
  "caseVariant (units (''2025_07_08_dc_027 - pris'' @ [CHR 0xF5] @ ''es.html''))
     (units (''2025_07_08_DC_027 - PRIS'' @ [CHR 0xD5] @ ''ES.HTML'')) \<and>
   detectFileCategoryW (units (''2025_07_08_DC_027 - PRIS'' @ [CHR 0xD5] @ ''ES.HTML'')) = ''DC'' \<and>
   caseVariant (units (''x_dp_'' @ [CHR 0xDF, CHR 0xFF])) (units ''X_DP_SS'' @ [U0178]) \<and>
   detectFileCategoryW (units (''x_dp_'' @ [CHR 0xDF, CHR 0xFF])) =
     detectFileCategoryW (units ''X_DP_SS'' @ [U0178]) \<and>
   toUpperCaseW (units (''x_dp_'' @ [CHR 0xDF, CHR 0xFF])) = units ''X_DP_SS'' @ [U0178]"
proof -
  let ?f = "''2025_07_08_dc_027 - pris'' @ [CHR 0xF5] @ ''es.html''"
  let ?v = "units (''2025_07_08_DC_027 - PRIS'' @ [CHR 0xD5] @ ''ES.HTML'')"
  let ?u = "units (''x_dp_'' @ [CHR 0xDF, CHR 0xFF])"
  let ?w = "units ''X_DP_SS'' @ [U0178]"
  have h1: "caseVariant (units ?f) ?v" by code_simp
  have h2: "caseVariant ?u ?w" by code_simp
  have c: "detectFileCategory ?f = ''DC''" by code_simp
  have up: "toUpperCaseW ?u = ?w" by code_simp
  from detectFileCategory_case_insensitive[where f = ?f and v = ?v] h1
  have "detectFileCategoryW ?v = detectFileCategory ?f" by blast
  then have a: "detectFileCategoryW ?v = ''DC''" by (simp only: c)
  from detectFileCategory_case_insensitive[where u = ?u and v = ?w] h2
  have b: "detectFileCategoryW ?u = detectFileCategoryW ?w" by blast
  from h1 a h2 b up show ?thesis by blast
qed


section \<open>Properties of the number extractor\<close>

lemma stripHtmlExt_split:
  "\<exists>e. f = stripHtmlExt f @ e \<and> (e = [] \<or> upperChar (hd e) = CHR ''.'')"
proof -
  let ?n = "length f"
  consider (html) "5 \<le> ?n \<and> toUpperCase (drop (?n - 5) f) = ''.HTML''"
    | (htm) "\<not> (5 \<le> ?n \<and> toUpperCase (drop (?n - 5) f) = ''.HTML'')"
        "4 \<le> ?n \<and> toUpperCase (drop (?n - 4) f) = ''.HTM''"
    | (none) "\<not> (5 \<le> ?n \<and> toUpperCase (drop (?n - 5) f) = ''.HTML'')"
        "\<not> (4 \<le> ?n \<and> toUpperCase (drop (?n - 4) f) = ''.HTM'')"
    by blast
  then show ?thesis
  proof cases
    case html
    then have s: "stripHtmlExt f = take (?n - 5) f" by (simp add: stripHtmlExt_def Let_def)
    from html have "upperChar (hd (drop (?n - 5) f)) = CHR ''.''"
      by (cases "drop (?n - 5) f") (auto simp: toUpperCase_def)
    then show ?thesis unfolding s
      by (intro exI[of _ "drop (?n - 5) f"]) simp
  next
    case htm
    then have s: "stripHtmlExt f = take (?n - 4) f" by (auto simp: stripHtmlExt_def Let_def)
    from htm have "upperChar (hd (drop (?n - 4) f)) = CHR ''.''"
      by (cases "drop (?n - 4) f") (auto simp: toUpperCase_def)
    then show ?thesis unfolding s
      by (intro exI[of _ "drop (?n - 4) f"]) simp
  next
    case none
    then have "stripHtmlExt f = f" by (auto simp: stripHtmlExt_def Let_def)
    then show ?thesis by simp
  qed
qed

lemma upperChar_digit: "isDigit c \<Longrightarrow> upperChar c \<noteq> CHR ''.''"
  unfolding upperChar_def isDigit_def isLower_def Let_def by auto

lemma upperChar_underscore: "upperChar CHR ''_'' \<noteq> CHR ''.''"
  by code_simp

lemma stripHtmlExt_year_prefix:
  assumes "list_all isDigit y"
  shows "\<exists>rest'. stripHtmlExt (y @ CHR ''_'' # rest) = y @ CHR ''_'' # rest'"
proof -
  let ?f = "y @ CHR ''_'' # rest"
  from stripHtmlExt_split[of ?f] obtain e where
    e: "?f = stripHtmlExt ?f @ e" "e = [] \<or> upperChar (hd e) = CHR ''.''" by blast
  have p1: "prefix (y @ [CHR ''_'']) ?f" by (simp add: prefix_def)
  have p2: "prefix (stripHtmlExt ?f) ?f" using e(1) by (metis prefixI)
  from prefix_same_cases[OF p1 p2] show ?thesis
  proof
    assume "prefix (y @ [CHR ''_'']) (stripHtmlExt ?f)"
    then show ?thesis by (auto simp: prefix_def)
  next
    assume "prefix (stripHtmlExt ?f) (y @ [CHR ''_''])"
    then obtain us where us: "y @ [CHR ''_''] = stripHtmlExt ?f @ us" by (auto simp: prefix_def)
    show ?thesis
    proof (cases us)
      case Nil
      with us have "stripHtmlExt ?f = y @ CHR ''_'' # []" by simp
      then show ?thesis by blast
    next
      case (Cons c us')
      have "?f = (y @ [CHR ''_'']) @ rest" by simp
      also have "\<dots> = stripHtmlExt ?f @ (us @ rest)" unfolding us by simp
      finally have "stripHtmlExt ?f @ e = stripHtmlExt ?f @ (us @ rest)" using e(1) by simp
      then have "e = us @ rest" by simp
      with Cons e(2) have dot: "upperChar c = CHR ''.''" by simp
      have "c \<in> set (y @ [CHR ''_''])" unfolding us Cons by simp
      then have "isDigit c \<or> c = CHR ''_''" using assms by (auto simp: list_all_iff)
      with dot upperChar_digit upperChar_underscore show ?thesis by blast
    qed
  qed
qed

lemma pattern4_year:
  assumes "list_all isDigit y" "length y = 4"
  shows "pattern4 (y @ CHR ''_'' # r) = Some [y @ ''_'', y]"
  using assms by (simp add: pattern4_def allDigits_def boundary_def)

lemma firstMatch_here: "p s = Some m \<Longrightarrow> firstMatch p s = Some m"
  by (cases s) simp_all

text \<open>
  Claim C9, as the code has it. Take a file name that starts with four digits and an
  underscore and whose base name has no match of the three structured patterns (a run
  of letters, then \<^verbatim>\<open>_\<close>, \<^verbatim>\<open>-\<close> or white space, then three or four digits); a name whose
  only number after a category code has fewer than three digits is of that kind. Then
  the fourth pattern matches the four leading digits and \<^verbatim>\<open>extractFileNumber\<close> returns
  them, the year of the date prefix.
\<close>

theorem extractFileNumber_year_prefix:
  assumes "list_all isDigit y" and "length y = 4"
    and "firstMatch pattern1 (stripHtmlExt (y @ ''_'' @ rest)) = None"
    and "firstMatch pattern2 (stripHtmlExt (y @ ''_'' @ rest)) = None"
    and "firstMatch pattern3 (stripHtmlExt (y @ ''_'' @ rest)) = None"
  shows "extractFileNumber (y @ ''_'' @ rest) = parseInt y"
proof -
  from stripHtmlExt_year_prefix[OF assms(1), of rest] obtain rest' where
    b: "stripHtmlExt (y @ ''_'' @ rest) = y @ CHR ''_'' # rest'" by auto
  have "firstMatch pattern4 (stripHtmlExt (y @ ''_'' @ rest)) = Some [y @ ''_'', y]"
    unfolding b by (rule firstMatch_here) (rule pattern4_year[OF assms(1,2)])
  then have "tryPatterns parseInt patterns (stripHtmlExt (y @ ''_'' @ rest)) = Some (parseInt y)"
    using assms(3-5) by (simp add: patterns_def)
  then show ?thesis by (simp add: extractFileNumber_def extractFileNumberWith_def)
qed

theorem extractFileNumber_year_prefix_witness:
  "extractFileNumber ''2025_06_25_DC_05 - x.html'' = 2025"
proof -
  have d: "list_all isDigit ''2025''" "length ''2025'' = 4" by code_simp+
  have n1: "firstMatch pattern1 (stripHtmlExt (''2025'' @ ''_'' @ ''06_25_DC_05 - x.html'')) = None"
    by code_simp
  have n2: "firstMatch pattern2 (stripHtmlExt (''2025'' @ ''_'' @ ''06_25_DC_05 - x.html'')) = None"
    by code_simp
  have n3: "firstMatch pattern3 (stripHtmlExt (''2025'' @ ''_'' @ ''06_25_DC_05 - x.html'')) = None"
    by code_simp
  have v: "parseInt ''2025'' = 2025" by code_simp
  from extractFileNumber_year_prefix[OF d n1 n2 n3] v show ?thesis by simp
qed

text \<open>
  Claim C9 as stated fails: the name below starts with a year and an underscore and its
  sequence number \<^verbatim>\<open>05\<close> has two digits, but the title holds \<^verbatim>\<open>Lei 8112\<close>, which the third
  structured pattern matches first.
\<close>

theorem extractFileNumber_year_counterexample:
  "extractFileNumber ''2025_06_25_DC_05 - Lei 8112.html'' = 8112 \<and>
   extractFileNumber ''2025_06_25_DC_05 - Lei 8112.html'' \<noteq> 2025"
  by code_simp

lemma digits34_Some:
  "digits34 s = Some d \<Longrightarrow> d \<noteq> [] \<and> list_all isDigit d \<and> set d \<subseteq> set s"
proof -
  assume a: "digits34 s = Some d"
  then have d: "d = takeWhile isDigit (take 4 s)" and l: "3 \<le> length d"
    by (auto simp: digits34_def Let_def split: if_splits)
  from l have "d \<noteq> []" by auto
  moreover have "list_all isDigit d" unfolding d list_all_iff by (auto dest: set_takeWhileD)
  moreover have "set d \<subseteq> set s"
  proof
    fix x assume "x \<in> set d"
    then have "x \<in> set (take 4 s)" unfolding d by (rule set_takeWhileD[THEN conjunct1])
    then show "x \<in> set s" by (rule in_set_takeD)
  qed
  ultimately show ?thesis by blast
qed

lemma lettersThen_Some:
  "lettersThen k s = Some m \<Longrightarrow> \<exists>ls r. k ls r = Some m \<and> set r \<subseteq> set s"
  by (auto simp: lettersThen_def Let_def split: if_splits dest: set_dropWhileD)

lemma pattern1_Some:
  assumes "pattern1 s = Some m"
  shows "length m = 3 \<and> m ! 2 \<noteq> [] \<and> list_all isDigit (m ! 2) \<and> set (m ! 2) \<subseteq> set s"
proof -
  from assms obtain r where s: "s = CHR ''_'' # r" and
    l: "lettersThen (\<lambda>ls r'. case r' of [] \<Rightarrow> None
          | c' # r'' \<Rightarrow> if c' = CHR ''_'' then
              (case digits34 r'' of Some d \<Rightarrow> Some [''_'' @ ls @ ''_'' @ d, ls, d] | None \<Rightarrow> None)
            else None) r = Some m"
    by (auto simp: pattern1_def split: list.splits if_splits)
  from lettersThen_Some[OF l] obtain ls r' where
    k: "(case r' of [] \<Rightarrow> None
          | c' # r'' \<Rightarrow> if c' = CHR ''_'' then
              (case digits34 r'' of Some d \<Rightarrow> Some [''_'' @ ls @ ''_'' @ d, ls, d] | None \<Rightarrow> None)
            else None) = Some m" and sub: "set r' \<subseteq> set r"
    by blast
  from k obtain r'' d where r': "r' = CHR ''_'' # r''" and d: "digits34 r'' = Some d"
    and m: "m = [''_'' @ ls @ ''_'' @ d, ls, d]"
    by (auto split: list.splits if_splits option.splits)
  from digits34_Some[OF d] sub r' s show ?thesis unfolding m by auto
qed

lemma pattern2_Some:
  assumes "pattern2 s = Some m"
  shows "length m = 3 \<and> m ! 2 \<noteq> [] \<and> list_all isDigit (m ! 2) \<and> set (m ! 2) \<subseteq> set s"
proof -
  from lettersThen_Some[OF assms[unfolded pattern2_def]] obtain ls r' where
    k: "(case r' of [] \<Rightarrow> None
          | c' # r'' \<Rightarrow> if c' = CHR ''-'' then
              (case digits34 r'' of Some d \<Rightarrow> Some [ls @ ''-'' @ d, ls, d] | None \<Rightarrow> None)
            else None) = Some m" and sub: "set r' \<subseteq> set s"
    by blast
  from k obtain r'' d where r': "r' = CHR ''-'' # r''" and d: "digits34 r'' = Some d"
    and m: "m = [ls @ ''-'' @ d, ls, d]"
    by (auto split: list.splits if_splits option.splits)
  from digits34_Some[OF d] sub r' show ?thesis unfolding m by auto
qed

lemma pattern3_Some:
  assumes "pattern3 s = Some m"
  shows "length m = 3 \<and> m ! 2 \<noteq> [] \<and> list_all isDigit (m ! 2) \<and> set (m ! 2) \<subseteq> set s"
proof -
  from lettersThen_Some[OF assms[unfolded pattern3_def]] obtain ls r' where
    k: "(let ws = takeWhile isSpace r' in
         if ws = [] then None
         else (case digits34 (dropWhile isSpace r') of
                 Some d \<Rightarrow> Some [ls @ ws @ d, ls, d] | None \<Rightarrow> None)) = Some m"
      and sub: "set r' \<subseteq> set s"
    by blast
  from k obtain d where d: "digits34 (dropWhile isSpace r') = Some d"
    and m: "m = [ls @ takeWhile isSpace r' @ d, ls, d]"
    by (auto simp: Let_def split: if_splits option.splits)
  have "set (dropWhile isSpace r') \<subseteq> set r'" by (auto dest: set_dropWhileD)
  with digits34_Some[OF d] sub show ?thesis unfolding m by auto
qed

lemma allDigits_take:
  "allDigits n s \<Longrightarrow> 0 < n \<Longrightarrow> take n s \<noteq> [] \<and> list_all isDigit (take n s) \<and> set (take n s) \<subseteq> set s"
  by (auto simp: allDigits_def dest: in_set_takeD)

lemma pattern4_Some:
  assumes "pattern4 s = Some m"
  shows "length m = 2 \<and> m ! 1 \<noteq> [] \<and> list_all isDigit (m ! 1) \<and> set (m ! 1) \<subseteq> set s"
proof -
  from assms consider b where "allDigits 4 s" "m = [take 4 s @ b, take 4 s]"
    | b where "allDigits 3 s" "m = [take 3 s @ b, take 3 s]"
    by (auto simp: pattern4_def split: option.splits if_splits)
  then show ?thesis
  proof cases
    case 1
    with allDigits_take[of 4 s] show ?thesis by simp
  next
    case 2
    with allDigits_take[of 3 s] show ?thesis by simp
  qed
qed

lemma digitRun_Some:
  assumes "(let d = takeWhile isDigit s in if k \<le> length d then Some [d, d] else None) = Some m"
    and "0 < k"
  shows "length m = 2 \<and> m ! 1 \<noteq> [] \<and> list_all isDigit (m ! 1) \<and> set (m ! 1) \<subseteq> set s"
proof -
  from assms have m: "m = [takeWhile isDigit s, takeWhile isDigit s]"
    and l: "k \<le> length (takeWhile isDigit s)"
    by (auto simp: Let_def split: if_splits)
  from l assms(2) have "takeWhile isDigit s \<noteq> []" by auto
  moreover have "list_all isDigit (takeWhile isDigit s)"
    unfolding list_all_iff by (auto dest: set_takeWhileD)
  moreover have "set (takeWhile isDigit s) \<subseteq> set s" by (auto dest: set_takeWhileD)
  ultimately show ?thesis unfolding m by simp
qed

lemma pattern5_Some:
  "pattern5 s = Some m \<Longrightarrow>
   length m = 2 \<and> m ! 1 \<noteq> [] \<and> list_all isDigit (m ! 1) \<and> set (m ! 1) \<subseteq> set s"
  using digitRun_Some[of s 3 m] by (simp add: pattern5_def)

lemma anyNumber_Some:
  "anyNumber s = Some m \<Longrightarrow>
   length m = 2 \<and> m ! 1 \<noteq> [] \<and> list_all isDigit (m ! 1) \<and> set (m ! 1) \<subseteq> set s"
  using digitRun_Some[of s 1 m] by (simp add: anyNumber_def)

lemma patterns_Some:
  assumes "p \<in> set patterns" "p s = Some m"
  shows "(length m = 2 \<or> length m = 3) \<and>
         (if 3 \<le> length m then m ! 2 else m ! 1) \<noteq> [] \<and>
         list_all isDigit (if 3 \<le> length m then m ! 2 else m ! 1) \<and>
         set (if 3 \<le> length m then m ! 2 else m ! 1) \<subseteq> set s"
proof -
  from assms(1) consider "p = pattern1" | "p = pattern2" | "p = pattern3" | "p = pattern4"
    | "p = pattern5" by (auto simp: patterns_def)
  then show ?thesis
  proof cases
    case 1 with pattern1_Some[of s m] assms(2) show ?thesis by simp
  next
    case 2 with pattern2_Some[of s m] assms(2) show ?thesis by simp
  next
    case 3 with pattern3_Some[of s m] assms(2) show ?thesis by simp
  next
    case 4 with pattern4_Some[of s m] assms(2) show ?thesis by simp
  next
    case 5 with pattern5_Some[of s m] assms(2) show ?thesis by simp
  qed
qed

lemma firstMatch_Some:
  "firstMatch p s = Some m \<Longrightarrow> \<exists>t. suffix t s \<and> p t = Some m"
proof (induction s)
  case Nil
  then show ?case by auto
next
  case (Cons c cs)
  show ?case
  proof (cases "p (c # cs)")
    case None
    with Cons.prems have "firstMatch p cs = Some m" by simp
    from Cons.IH[OF this] obtain t where "suffix t cs" "p t = Some m" by blast
    then show ?thesis by (meson suffix_Cons)
  next
    case (Some m')
    with Cons.prems have "p (c # cs) = Some m" by simp
    then show ?thesis by blast
  qed
qed

lemma tryPatterns_skip:
  "\<forall>q\<in>set pre. firstMatch q b = None \<Longrightarrow>
   tryPatterns conv (pre @ ps) b = tryPatterns conv ps b"
  by (induction pre) simp_all

lemma tryPatterns_hit:
  assumes "firstMatch p b = Some m" "length m = 2 \<or> length m = 3"
  shows "tryPatterns conv (p # post) b = Some (conv (if 3 \<le> length m then m ! 2 else m ! 1))"
  using assms by auto

lemma tryPatterns_Some:
  "tryPatterns conv ps b = Some n \<Longrightarrow> set ps \<subseteq> set patterns \<Longrightarrow>
   \<exists>ds. ds \<noteq> [] \<and> list_all isDigit ds \<and> set ds \<subseteq> set b \<and> n = conv ds"
proof (induction ps)
  case Nil
  then show ?case by simp
next
  case (Cons p ps)
  show ?case
  proof (cases "firstMatch p b")
    case None
    with Cons show ?thesis by simp
  next
    case (Some m)
    from firstMatch_Some[OF Some] obtain t where t: "suffix t b" "p t = Some m" by blast
    from Cons.prems(2) have "p \<in> set patterns" by simp
    from patterns_Some[OF this t(2)] have
      g: "length m = 2 \<or> length m = 3"
         "(if 3 \<le> length m then m ! 2 else m ! 1) \<noteq> []"
         "list_all isDigit (if 3 \<le> length m then m ! 2 else m ! 1)"
         "set (if 3 \<le> length m then m ! 2 else m ! 1) \<subseteq> set t"
      by blast+
    from t(1) have "set t \<subseteq> set b" by (rule set_mono_suffix)
    with g(4) have sub: "set (if 3 \<le> length m then m ! 2 else m ! 1) \<subseteq> set b" by blast
    from tryPatterns_hit[OF Some g(1), of conv ps] Cons.prems(1)
    have "n = conv (if 3 \<le> length m then m ! 2 else m ! 1)" by simp
    with g(2,3) sub show ?thesis by blast
  qed
qed

lemma set_stripHtmlExt: "set (stripHtmlExt f) \<subseteq> set f"
proof -
  from stripHtmlExt_split[of f] obtain e where "f = stripHtmlExt f @ e" by blast
  then show ?thesis by (metis set_append sup_ge1)
qed

lemma extract_value:
  "extractFileNumberWith conv sentinel f = sentinel \<or>
   (\<exists>ds. ds \<noteq> [] \<and> list_all isDigit ds \<and> set ds \<subseteq> set f \<and>
      extractFileNumberWith conv sentinel f = conv ds)"
proof (cases "tryPatterns conv patterns (stripHtmlExt f)")
  case (Some n)
  from tryPatterns_Some[OF Some] obtain ds where
    "ds \<noteq> []" "list_all isDigit ds" "set ds \<subseteq> set (stripHtmlExt f)" "n = conv ds" by blast
  moreover have "extractFileNumberWith conv sentinel f = n"
    by (simp add: extractFileNumberWith_def Some)
  ultimately show ?thesis using set_stripHtmlExt[of f] by blast
next
  case None
  show ?thesis
  proof (cases "firstMatch anyNumber (stripHtmlExt f)")
    case n: None
    then show ?thesis by (simp add: extractFileNumberWith_def None)
  next
    case (Some a)
    from firstMatch_Some[OF Some] obtain t where t: "suffix t (stripHtmlExt f)" "anyNumber t = Some a"
      by blast
    from anyNumber_Some[OF t(2)] have g: "a ! 1 \<noteq> []" "list_all isDigit (a ! 1)" "set (a ! 1) \<subseteq> set t"
      by blast+
    from t(1) have "set t \<subseteq> set (stripHtmlExt f)" by (rule set_mono_suffix)
    with g(3) set_stripHtmlExt[of f] have "set (a ! 1) \<subseteq> set f" by blast
    moreover have "extractFileNumberWith conv sentinel f = conv (a ! 1)"
      by (simp add: extractFileNumberWith_def None Some)
    ultimately show ?thesis using g(1,2) by blast
  qed
qed

text \<open>
  Claim C5. \<^verbatim>\<open>extractFileNumber\<close> returns 5 for \<^verbatim>\<open>2025_06_25_DC_005- Teoria ...html\<close>,
  the sentinel 9999 for \<^verbatim>\<open>Acao popular.html\<close>, which has no digit, and 42 for
  \<^verbatim>\<open>file-042.html\<close>. It is deterministic and total: every name has exactly one result,
  and the result is the sentinel or the conversion of a run of digits of the name that
  is not empty, so that \<^verbatim>\<open>parseInt\<close> always gets digits to read. The first matching
  pattern wins: when a pattern of the list matches the base name and no pattern before
  it in the list does, the result is the conversion of its second group when the match
  array has one and of its first group otherwise, whatever the patterns after it would
  find. When no pattern of the list matches, the result is the conversion of the first
  run of digits, or the sentinel when there is none, and a name without a digit gets the
  sentinel. All this holds for every conversion and sentinel, the integers of
  \<open>extractFileNumber\<close> among them.
\<close>

theorem extractFileNumber_examples:
  "extractFileNumber ''2025_06_25_DC_005- Teoria ...html'' = 5 \<and>
   extractFileNumber ''Acao popular.html'' = 9999 \<and>
   extractFileNumber ''file-042.html'' = 42 \<and>
   extractFileNumber f = extractFileNumberWith parseInt 9999 f \<and>
   (\<exists>!n. extractFileNumberWith conv sentinel f = n) \<and>
   (extractFileNumberWith conv sentinel f = sentinel \<or>
    (\<exists>ds. ds \<noteq> [] \<and> list_all isDigit ds \<and> set ds \<subseteq> set f \<and>
       extractFileNumberWith conv sentinel f = conv ds)) \<and>
   (patterns = pre @ p # post \<and>
    (\<forall>q\<in>set pre. firstMatch q (stripHtmlExt f) = None) \<and>
    firstMatch p (stripHtmlExt f) = Some m \<longrightarrow>
      extractFileNumberWith conv sentinel f = conv (if 3 \<le> length m then m ! 2 else m ! 1)) \<and>
   ((\<forall>q\<in>set patterns. firstMatch q (stripHtmlExt f) = None) \<longrightarrow>
      extractFileNumberWith conv sentinel f =
        (case firstMatch anyNumber (stripHtmlExt f) of
           Some a \<Rightarrow> conv (a ! 1) | None \<Rightarrow> sentinel)) \<and>
   ((\<forall>c\<in>set f. \<not> isDigit c) \<longrightarrow> extractFileNumberWith conv sentinel f = sentinel)"
proof (intro conjI impI)
  show "extractFileNumber ''2025_06_25_DC_005- Teoria ...html'' = 5" by code_simp
  show "extractFileNumber ''Acao popular.html'' = 9999" by code_simp
  show "extractFileNumber ''file-042.html'' = 42" by code_simp
  show "extractFileNumber f = extractFileNumberWith parseInt 9999 f"
    by (rule extractFileNumber_def)
  show "\<exists>!n. extractFileNumberWith conv sentinel f = n" by simp
  show "extractFileNumberWith conv sentinel f = sentinel \<or>
    (\<exists>ds. ds \<noteq> [] \<and> list_all isDigit ds \<and> set ds \<subseteq> set f \<and>
       extractFileNumberWith conv sentinel f = conv ds)"
    by (rule extract_value)
next
  assume h: "patterns = pre @ p # post \<and>
    (\<forall>q\<in>set pre. firstMatch q (stripHtmlExt f) = None) \<and>
    firstMatch p (stripHtmlExt f) = Some m"
  let ?b = "stripHtmlExt f"
  have mem: "p \<in> set (pre @ p # post)" by simp
  then have pm: "p \<in> set patterns" using h by simp
  from h firstMatch_Some obtain t where t: "p t = Some m" by blast
  from patterns_Some[OF pm t] have len: "length m = 2 \<or> length m = 3" by blast
  have "tryPatterns conv patterns ?b = tryPatterns conv (pre @ p # post) ?b" using h by simp
  also have "\<dots> = tryPatterns conv (p # post) ?b" by (rule tryPatterns_skip) (use h in blast)
  also have "\<dots> = Some (conv (if 3 \<le> length m then m ! 2 else m ! 1))"
    by (rule tryPatterns_hit) (use h len in blast)+
  finally show "extractFileNumberWith conv sentinel f =
      conv (if 3 \<le> length m then m ! 2 else m ! 1)"
    by (simp add: extractFileNumberWith_def)
next
  assume h: "\<forall>q\<in>set patterns. firstMatch q (stripHtmlExt f) = None"
  have "tryPatterns conv (patterns @ []) (stripHtmlExt f) = tryPatterns conv [] (stripHtmlExt f)"
    by (rule tryPatterns_skip[OF h])
  then have "tryPatterns conv patterns (stripHtmlExt f) = None" by simp
  then show "extractFileNumberWith conv sentinel f =
        (case firstMatch anyNumber (stripHtmlExt f) of
           Some a \<Rightarrow> conv (a ! 1) | None \<Rightarrow> sentinel)"
    by (simp add: extractFileNumberWith_def)
next
  assume h: "\<forall>c\<in>set f. \<not> isDigit c"
  have none: "q t = None" if q: "q \<in> set patterns \<or> q = anyNumber" and t: "set t \<subseteq> set f" for q t
  proof (cases "q t")
    case None
    then show ?thesis .
  next
    case (Some m)
    from q have "\<exists>ds. ds \<noteq> [] \<and> list_all isDigit ds \<and> set ds \<subseteq> set t"
    proof
      assume "q \<in> set patterns"
      from patterns_Some[OF this Some] show ?thesis by blast
    next
      assume "q = anyNumber"
      with anyNumber_Some[of t m] Some show ?thesis by blast
    qed
    then obtain ds where "ds \<noteq> []" "list_all isDigit ds" "set ds \<subseteq> set t" by blast
    then obtain c where "c \<in> set f" "isDigit c" using t
      by (metis hd_in_set list_all_iff subsetD)
    with h show ?thesis by blast
  qed
  have fm: "firstMatch q (stripHtmlExt f) = None" if q: "q \<in> set patterns \<or> q = anyNumber" for q
  proof (cases "firstMatch q (stripHtmlExt f)")
    case None
    then show ?thesis .
  next
    case (Some m)
    from firstMatch_Some[OF Some] obtain t where t: "suffix t (stripHtmlExt f)" "q t = Some m"
      by blast
    from t(1) have "set t \<subseteq> set (stripHtmlExt f)" by (rule set_mono_suffix)
    with set_stripHtmlExt[of f] have "set t \<subseteq> set f" by blast
    from none[OF q this] t(2) show ?thesis by simp
  qed
  have "tryPatterns conv (patterns @ []) (stripHtmlExt f) = tryPatterns conv [] (stripHtmlExt f)"
    by (rule tryPatterns_skip) (use fm in blast)
  then have "tryPatterns conv patterns (stripHtmlExt f) = None" by simp
  moreover have "firstMatch anyNumber (stripHtmlExt f) = None" using fm by blast
  ultimately show "extractFileNumberWith conv sentinel f = sentinel"
    by (simp add: extractFileNumberWith_def)
qed

theorem extractFileNumber_examples_witness:
  "extractFileNumber ''x9 ab-678.html'' = 678 \<and>
   extractFileNumber ''2025_06_25_DC_005- Teoria ...html'' = parseInt ''005'' \<and>
   extractFileNumber ''nota 7.html'' = 7 \<and>
   extractFileNumberWith length 0 ''Acao popular.html'' = 0"
proof -
  let ?f = "''x9 ab-678.html''"
  have sp: "patterns = [pattern1] @ pattern2 # [pattern3, pattern4, pattern5]"
    by (simp add: patterns_def)
  have n1: "\<forall>q\<in>set [pattern1]. firstMatch q (stripHtmlExt ?f) = None" by code_simp
  have m2: "firstMatch pattern2 (stripHtmlExt ?f) = Some [''ab-678'', ''ab'', ''678'']"
    by code_simp
  from extractFileNumber_examples[where f = ?f and conv = parseInt and sentinel = 9999
      and pre = "[pattern1]" and p = pattern2 and post = "[pattern3, pattern4, pattern5]"
      and m = "[''ab-678'', ''ab'', ''678'']"] sp n1 m2
  have "extractFileNumber ?f = parseInt ''678''" by simp
  moreover have "parseInt ''678'' = 678" by code_simp
  ultimately have a: "extractFileNumber ?f = 678" by simp
  let ?g = "''2025_06_25_DC_005- Teoria ...html''"
  have sp1: "patterns = [] @ pattern1 # [pattern2, pattern3, pattern4, pattern5]"
    by (simp add: patterns_def)
  have m1: "firstMatch pattern1 (stripHtmlExt ?g) = Some [''_DC_005'', ''DC'', ''005'']"
    by code_simp
  from extractFileNumber_examples[where f = ?g and conv = parseInt and sentinel = 9999
      and pre = "[]" and p = pattern1 and post = "[pattern2, pattern3, pattern4, pattern5]"
      and m = "[''_DC_005'', ''DC'', ''005'']"] sp1 m1
  have b: "extractFileNumber ?g = parseInt ''005''" by simp
  let ?h = "''nota 7.html''"
  have none: "firstMatch pattern1 (stripHtmlExt ?h) = None"
    "firstMatch pattern2 (stripHtmlExt ?h) = None"
    "firstMatch pattern3 (stripHtmlExt ?h) = None"
    "firstMatch pattern4 (stripHtmlExt ?h) = None"
    "firstMatch pattern5 (stripHtmlExt ?h) = None"
    by code_simp+
  then have all: "\<forall>q\<in>set patterns. firstMatch q (stripHtmlExt ?h) = None"
    by (simp add: patterns_def)
  have any: "firstMatch anyNumber (stripHtmlExt ?h) = Some [''7'', ''7'']" by code_simp
  from extractFileNumber_examples[where f = ?h and conv = parseInt and sentinel = 9999] all
  have "extractFileNumber ?h =
      (case firstMatch anyNumber (stripHtmlExt ?h) of Some a \<Rightarrow> parseInt (a ! 1) | None \<Rightarrow> 9999)"
    by simp
  then have "extractFileNumber ?h = parseInt ''7''" by (simp add: any)
  moreover have "parseInt ''7'' = 7" by code_simp
  ultimately have c: "extractFileNumber ?h = 7" by simp
  have nd: "list_all (\<lambda>c. \<not> isDigit c) ''Acao popular.html''" by code_simp
  then have "\<forall>c\<in>set ''Acao popular.html''. \<not> isDigit c" by (simp only: list_all_iff)
  with extractFileNumber_examples[where f = "''Acao popular.html''" and conv = length and sentinel = 0]
  have d: "extractFileNumberWith length 0 ''Acao popular.html'' = 0" by blast
  from a b c d show ?thesis by blast
qed


section \<open>Properties of the cache\<close>

text \<open>
  Claim C7. \<^verbatim>\<open>isCacheValid()\<close> holds exactly when \<^verbatim>\<open>lastUpdate\<close> is set (a time value that
  is not \<^verbatim>\<open>null\<close> and, by the truth test of the source, not zero), less than 300000 ms
  have passed since then, and the file list is not empty. So with \<^verbatim>\<open>lastUpdate = t0\<close> and
  a non-empty list it holds at the times before \<open>t0 + 300000\<close> and fails from then on, and
  with an empty list it fails at every time.
\<close>

theorem isCacheValid_window:
  "(isCacheValid now s \<longleftrightarrow>
      (\<exists>t. lastUpdate s = Some t \<and> t \<noteq> 0 \<and> now - t < 300000 \<and> Portal.files s \<noteq> [])) \<and>
   (lastUpdate s = Some t0 \<and> t0 \<noteq> 0 \<and> Portal.files s \<noteq> [] \<longrightarrow>
      (isCacheValid now s \<longleftrightarrow> now < t0 + 300000)) \<and>
   (Portal.files s = [] \<longrightarrow> \<not> isCacheValid now s)"
  by (auto simp: isCacheValid_def cacheDuration_def split: option.splits)

theorem isCacheValid_window_witness:
  "isCacheValid 1762000000000 (loadedPortal 1762000000000) \<and>
   isCacheValid 1762000299999 (loadedPortal 1762000000000) \<and>
   \<not> isCacheValid 1762000300000 (loadedPortal 1762000000000) \<and>
   \<not> isCacheValid 1762000000000 (samplePortal localRepo None\<lparr> lastUpdate := Some 1762000000000 \<rparr>)"
proof -
  let ?s = "loadedPortal 1762000000000"
  let ?e = "samplePortal localRepo None\<lparr> lastUpdate := Some 1762000000000 \<rparr>"
  have h: "lastUpdate ?s = Some 1762000000000 \<and> (1762000000000::int) \<noteq> 0 \<and> Portal.files ?s \<noteq> []"
    by (simp add: loadedPortal_def)
  have e: "Portal.files ?e = []" by (simp add: samplePortal_def newPortal_def)
  from isCacheValid_window[of 1762000000000 ?s 1762000000000] h
  have a: "isCacheValid 1762000000000 ?s" by simp
  from isCacheValid_window[of 1762000299999 ?s 1762000000000] h
  have b: "isCacheValid 1762000299999 ?s" by simp
  from isCacheValid_window[of 1762000300000 ?s 1762000000000] h
  have c: "\<not> isCacheValid 1762000300000 ?s" by simp
  from isCacheValid_window[of 1762000000000 ?e] e
  have d: "\<not> isCacheValid 1762000000000 ?e" by blast
  from a b c d show ?thesis by blast
qed

lemma renderFiles_frame:
  "Portal.files (renderFiles env s) = Portal.files s \<and>
   categories (renderFiles env s) = categories s \<and>
   lastUpdate (renderFiles env s) = lastUpdate s \<and>
   activeCategory (renderFiles env s) = activeCategory s \<and>
   currentRepo (renderFiles env s) = currentRepo s \<and>
   (trace (renderFiles env s) = trace s \<or> trace (renderFiles env s) = trace s @ [StorageWrite])"
  by (simp add: renderFiles_def renderEmptyState_def setCachedData_def Let_def)

text \<open>
  Claim C8. A call \<^verbatim>\<open>loadFiles(false)\<close> made while the in-memory cache is valid leaves the
  files, the categories, \<^verbatim>\<open>lastUpdate\<close> and the active category as they are. It loads
  from no source and sends no request: the only access it may add to the trace is the
  write of the persisted store by \<^verbatim>\<open>renderFiles\<close>.
\<close>

theorem loadFiles_cache_hit:
  assumes "isCacheValid (nowCheck env) s"
  shows "Portal.files (loadFiles False env s) = Portal.files s \<and>
         categories (loadFiles False env s) = categories s \<and>
         lastUpdate (loadFiles False env s) = lastUpdate s \<and>
         activeCategory (loadFiles False env s) = activeCategory s \<and>
         (trace (loadFiles False env s) = trace s \<or>
          trace (loadFiles False env s) = trace s @ [StorageWrite])"
proof (cases "filesContainer s = None")
  case True
  then show ?thesis by (simp add: loadFiles_def)
next
  case False
  have "loadFiles False env s = renderFiles env s"
    unfolding loadFiles_def using False assms by (simp only: if_False if_True simp_thms)
  then show ?thesis using renderFiles_frame[of env s] by simp
qed

theorem loadFiles_cache_hit_witness:
  "isCacheValid (nowCheck (sampleEnv (NetworkError ''offline''))) (loadedPortal 1762000000000) \<and>
   Portal.files (loadFiles False (sampleEnv (NetworkError ''offline'')) (loadedPortal 1762000000000))
     = [sampleFile] \<and>
   lastUpdate (loadFiles False (sampleEnv (NetworkError ''offline'')) (loadedPortal 1762000000000))
     = Some 1762000000000"
proof -
  let ?env = "sampleEnv (NetworkError ''offline'')"
  let ?s = "loadedPortal 1762000000000"
  have h: "isCacheValid (nowCheck ?env) ?s"
    by (simp add: isCacheValid_def cacheDuration_def sampleEnv_def loadedPortal_def)
  have f: "Portal.files ?s = [sampleFile]" "lastUpdate ?s = Some 1762000000000"
    by (simp_all add: loadedPortal_def)
  from loadFiles_cache_hit[OF h] f h show ?thesis by simp
qed


section \<open>Properties of \<^verbatim>\<open>categorizeFiles\<close>\<close>

lemma mset_insertBy: "mset (insertBy cmp x xs) = add_mset x (mset xs)"
  by (induction xs) simp_all

lemma mset_arraySort: "mset (arraySort cmp xs) = mset xs"
  unfolding arraySort_def by (induction xs) (simp_all add: mset_insertBy)

lemma length_arraySort: "length (arraySort cmp xs) = length xs"
  by (metis mset_arraySort size_mset)

lemma set_arraySort: "set (arraySort cmp xs) = set xs"
  by (metis mset_arraySort set_mset_mset)

lemma detect_in_keys: "detectFileCategory f \<in> set categoryKeys"
proof -
  from detect_cases[of f] show ?thesis
  proof
    assume "find (codeMatches (toUpperCase f)) categoryPriority = None \<and>
      detectFileCategory f = ''GERAL''"
    then show ?thesis by (simp add: categoryKeys_def)
  next
    assume "\<exists>k. find (codeMatches (toUpperCase f)) categoryPriority = Some k \<and>
      detectFileCategory f = k"
    then obtain k where k: "find (codeMatches (toUpperCase f)) categoryPriority = Some k"
      "detectFileCategory f = k" by blast
    from find_Some_mem[OF k(1)] have "k \<in> set categoryPriority" .
    then have "k \<in> set categoryKeys" by (auto simp: categoryPriority_def categoryKeys_def)
    with k(2) show ?thesis by simp
  qed
qed

lemma members_Nil: "members [] = []"
  by (simp add: members_def)

lemma members_Cons: "members ((k, c) # cats) = Category.files c @ members cats"
  by (simp add: members_def)

lemma members_update:
  "map_of cats k = Some c \<Longrightarrow>
   mset (members (AList.update k (c\<lparr> Category.files := Category.files c @ [x] \<rparr>) cats)) =
   add_mset x (mset (members cats))"
proof (induction cats)
  case Nil
  then show ?case by simp
next
  case (Cons a cats)
  obtain k' c' where a: "a = (k', c')" by (cases a)
  show ?case
  proof (cases "k' = k")
    case True
    with Cons.prems a have "c' = c" by simp
    with True a show ?thesis by (simp add: members_Cons)
  next
    case False
    with Cons.prems a have "map_of cats k = Some c" by simp
    from Cons.IH[OF this] False a show ?thesis by (simp add: members_Cons)
  qed
qed

lemma keys_update:
  "map_of cats k = Some c \<Longrightarrow> map fst (AList.update k v cats) = map fst cats"
proof -
  assume "map_of cats k = Some c"
  then have "k \<in> set (map fst cats)" by (metis map_of_eq_None_iff option.distinct(1) set_map)
  then show ?thesis by (simp add: update_keys)
qed

lemma set_update_subset: "set (AList.update k v cats) \<subseteq> insert (k, v) (set cats)"
  by (induction cats) auto

lemma wellTagged_update:
  assumes "wellTagged cats" "map_of cats k = Some c"
    "category x = Some k" "detectFileCategory (name x) = k"
  shows "wellTagged (AList.update k (c\<lparr> Category.files := Category.files c @ [x] \<rparr>) cats)"
proof -
  from assms(2) have kc: "(k, c) \<in> set cats" by (rule map_of_SomeD)
  with assms(1) have old: "\<forall>y\<in>set (Category.files c).
      category y = Some k \<and> detectFileCategory (name y) = k"
    unfolding wellTagged_def by blast
  show ?thesis unfolding wellTagged_def
  proof (intro ballI, clarify)
    fix key c' y
    assume m: "(key, c') \<in> set (AList.update k (c\<lparr> Category.files := Category.files c @ [x] \<rparr>) cats)"
      and y: "y \<in> set (Category.files c')"
    from subsetD[OF set_update_subset m]
    have "(key, c') = (k, c\<lparr> Category.files := Category.files c @ [x] \<rparr>) \<or> (key, c') \<in> set cats"
      by simp
    then show "category y = Some key \<and> detectFileCategory (name y) = key"
    proof
      assume "(key, c') = (k, c\<lparr> Category.files := Category.files c @ [x] \<rparr>)"
      then have "key = k" "y \<in> set (Category.files c) \<or> y = x" using y by auto
      with old assms(3,4) show ?thesis by blast
    next
      assume "(key, c') \<in> set cats"
      with assms(1) y show ?thesis unfolding wellTagged_def by blast
    qed
  qed
qed

lemma tagged_props:
  "category (tagged f) = Some (detectFileCategory (name f))"
  "name (tagged f) = name f"
  "untagged (tagged f) = untagged f"
  by (simp_all add: tagged_def untagged_def)

lemma pushFiles_step:
  "map_of cats (detectFileCategory (name f0)) = Some c \<Longrightarrow>
   pushFiles (f0 # rest) cats =
     pushFiles rest (AList.update (detectFileCategory (name f0))
       (c\<lparr> Category.files := Category.files c @ [tagged f0] \<rparr>) cats)"
  by (simp add: Let_def tagged_def)

lemma pushFiles_ok:
  assumes "set categoryKeys \<subseteq> set (map fst cats)"
  shows "\<exists>cats'. pushFiles fs cats = (None, cats') \<and>
           map fst cats' = map fst cats \<and>
           mset (members cats') = mset (members cats) + mset (map tagged fs) \<and>
           (wellTagged cats \<longrightarrow> wellTagged cats')"
  using assms
proof (induction fs arbitrary: cats)
  case Nil
  then show ?case by simp
next
  case (Cons f0 rest)
  let ?k = "detectFileCategory (name f0)"
  from detect_in_keys Cons.prems have "?k \<in> set (map fst cats)" by blast
  then obtain c where c: "map_of cats ?k = Some c"
    by (metis map_of_eq_None_iff not_Some_eq set_map)
  let ?cats1 = "AList.update ?k (c\<lparr> Category.files := Category.files c @ [tagged f0] \<rparr>) cats"
  have keys1: "map fst ?cats1 = map fst cats" by (rule keys_update[OF c])
  with Cons.prems have "set categoryKeys \<subseteq> set (map fst ?cats1)" by simp
  from Cons.IH[OF this] obtain cats' where
    r: "pushFiles rest ?cats1 = (None, cats')" "map fst cats' = map fst ?cats1"
       "mset (members cats') = mset (members ?cats1) + mset (map tagged rest)"
       "wellTagged ?cats1 \<longrightarrow> wellTagged cats'"
    by blast
  have m1: "mset (members ?cats1) = add_mset (tagged f0) (mset (members cats))"
    by (rule members_update[OF c])
  have w1: "wellTagged cats \<longrightarrow> wellTagged ?cats1"
    using wellTagged_update[OF _ c, of "tagged f0"] by (simp add: tagged_props)
  have "pushFiles (f0 # rest) cats = (None, cats')"
    using pushFiles_step[OF c] r(1) by simp
  moreover have "map fst cats' = map fst cats" using r(2) keys1 by simp
  moreover have "mset (members cats') = mset (members cats) + mset (map tagged (f0 # rest))"
    using r(3) m1 by simp
  moreover have "wellTagged cats \<longrightarrow> wellTagged cats'" using r(4) w1 by blast
  ultimately show ?case by blast
qed

lemma clearCategories_props:
  "map fst (clearCategories cats) = map fst cats"
  "members (clearCategories cats) = []"
  "wellTagged (clearCategories cats)"
  by (induction cats)
     (auto simp: clearCategories_def members_def wellTagged_def)

lemma sortCategories_props:
  "map fst (sortCategories env cats) = map fst cats"
  "mset (members (sortCategories env cats)) = mset (members cats)"
  "wellTagged cats \<Longrightarrow> wellTagged (sortCategories env cats)"
proof -
  show "map fst (sortCategories env cats) = map fst cats"
    by (induction cats) (auto simp: sortCategories_def)
  show "mset (members (sortCategories env cats)) = mset (members cats)"
    by (induction cats) (auto simp: sortCategories_def members_def mset_arraySort)
  show "wellTagged cats \<Longrightarrow> wellTagged (sortCategories env cats)"
    unfolding wellTagged_def sortCategories_def by (auto simp: set_arraySort)
qed

lemma length_members:
  "sum_list (map (\<lambda>(key, c). length (Category.files c)) cats) = length (members cats)"
  by (induction cats) (auto simp: members_def)

lemma categorizeFiles_ok:
  assumes "set categoryKeys \<subseteq> set (map fst (categories s))"
  shows "\<exists>cats. categorizeFiles env s =
            (None, s\<lparr> categories := cats,
                       Portal.files := arraySort (byCategoryThenNumber env) (Portal.files s) \<rparr>) \<and>
           map fst cats = map fst (categories s) \<and>
           mset (members cats) = mset (map tagged (Portal.files s)) \<and>
           wellTagged cats"
proof -
  let ?c0 = "clearCategories (categories s)"
  from assms have "set categoryKeys \<subseteq> set (map fst ?c0)"
    by (simp add: clearCategories_props(1))
  from pushFiles_ok[OF this, of "Portal.files s"] obtain cats' where
    r: "pushFiles (Portal.files s) ?c0 = (None, cats')" "map fst cats' = map fst ?c0"
       "mset (members cats') = mset (members ?c0) + mset (map tagged (Portal.files s))"
       "wellTagged ?c0 \<longrightarrow> wellTagged cats'"
    by blast
  let ?cats = "sortCategories env cats'"
  have "categorizeFiles env s =
      (None, s\<lparr> categories := ?cats,
                 Portal.files := arraySort (byCategoryThenNumber env) (Portal.files s) \<rparr>)"
    by (simp add: categorizeFiles_def r(1))
  moreover have "map fst ?cats = map fst (categories s)"
    using r(2) by (simp add: sortCategories_props(1) clearCategories_props(1))
  moreover have "mset (members ?cats) = mset (map tagged (Portal.files s))"
    using r(3) by (simp add: sortCategories_props(2) clearCategories_props(2))
  moreover have "wellTagged ?cats"
    using r(4) clearCategories_props(3) sortCategories_props(3) by blast
  ultimately show ?thesis by blast
qed

text \<open>
  Claim C6. On a portal whose category table has the keys that the constructor gives
  it, \<^verbatim>\<open>categorizeFiles\<close> throws nothing, keeps the files of the catalog (it only
  reorders them), and leaves the categories as a partition of the catalog: the sizes of
  the categories add up to the number of files; the members of all categories are, apart
  from the two properties added to each copy, exactly the files of the catalog, each as
  often as the catalog has it; the keys are distinct; every member carries the key of
  its category, which is the category of its name; and two categories with different
  keys have no file name in common.
\<close>

theorem categorizeFiles_partition:
  assumes "map fst (categories s) = categoryKeys"
  shows "\<exists>s'. categorizeFiles env s = (None, s') \<and>
     mset (Portal.files s') = mset (Portal.files s) \<and>
     sum_list (map (\<lambda>(key, c). length (Category.files c)) (categories s')) =
       length (Portal.files s') \<and>
     mset (map untagged (members (categories s'))) = mset (map untagged (Portal.files s')) \<and>
     distinct (map fst (categories s')) \<and>
     (\<forall>(key, c) \<in> set (categories s'). \<forall>x \<in> set (Category.files c).
        category x = Some key \<and> detectFileCategory (name x) = key) \<and>
     (\<forall>p \<in> set (categories s'). \<forall>q \<in> set (categories s').
        fst p \<noteq> fst q \<longrightarrow>
        name ` set (Category.files (snd p)) \<inter> name ` set (Category.files (snd q)) = {})"
proof -
  from assms have "set categoryKeys \<subseteq> set (map fst (categories s))" by simp
  from categorizeFiles_ok[OF this, of env] obtain cats where
    r: "categorizeFiles env s =
          (None, s\<lparr> categories := cats,
                     Portal.files := arraySort (byCategoryThenNumber env) (Portal.files s) \<rparr>)"
       "map fst cats = map fst (categories s)"
       "mset (members cats) = mset (map tagged (Portal.files s))"
       "wellTagged cats"
    by blast
  let ?s' = "s\<lparr> categories := cats,
                 Portal.files := arraySort (byCategoryThenNumber env) (Portal.files s) \<rparr>"
  have f: "mset (Portal.files ?s') = mset (Portal.files s)" by (simp add: mset_arraySort)
  have len: "length (Portal.files ?s') = length (Portal.files s)" by (simp add: length_arraySort)
  have "length (members cats) = length (map tagged (Portal.files s))"
    using r(3) by (metis size_mset)
  then have n: "sum_list (map (\<lambda>(key, c). length (Category.files c)) (categories ?s')) =
      length (Portal.files ?s')"
    using len by (simp add: length_members)
  have "mset (map untagged (members cats)) = image_mset untagged (mset (map tagged (Portal.files s)))"
    using r(3) by (metis mset_map)
  also have "\<dots> = mset (map untagged (Portal.files s))"
    by (simp add: multiset.map_comp comp_def tagged_props(3))
  also have "\<dots> = mset (map untagged (Portal.files ?s'))"
    using f by (metis mset_map)
  finally have u: "mset (map untagged (members (categories ?s'))) =
      mset (map untagged (Portal.files ?s'))" by simp
  have d: "distinct (map fst (categories ?s'))"
    using r(2) assms by (simp add: categoryKeys_def)
  have w: "\<forall>(key, c) \<in> set (categories ?s'). \<forall>x \<in> set (Category.files c).
        category x = Some key \<and> detectFileCategory (name x) = key"
    using r(4) unfolding wellTagged_def by simp
  have disj: "\<forall>p \<in> set (categories ?s'). \<forall>q \<in> set (categories ?s').
        fst p \<noteq> fst q \<longrightarrow>
        name ` set (Category.files (snd p)) \<inter> name ` set (Category.files (snd q)) = {}"
  proof (intro ballI impI)
    fix p q
    assume m: "p \<in> set (categories ?s')" "q \<in> set (categories ?s')" and ne: "fst p \<noteq> fst q"
    have "name x1 \<noteq> name x2"
      if x: "x1 \<in> set (Category.files (snd p))" "x2 \<in> set (Category.files (snd q))" for x1 x2
    proof -
      from w m(1) x(1) have "detectFileCategory (name x1) = fst p" by (cases p) auto
      moreover from w m(2) x(2) have "detectFileCategory (name x2) = fst q" by (cases q) auto
      ultimately show ?thesis using ne by auto
    qed
    then show "name ` set (Category.files (snd p)) \<inter> name ` set (Category.files (snd q)) = {}"
      by blast
  qed
  from r(1) f n u d w disj show ?thesis by blast
qed

theorem categorizeFiles_partition_witness:
  "map fst (categories (loadedPortal 1762000000000)) = categoryKeys \<and>
   (\<exists>s'. categorizeFiles (sampleEnv (NetworkError ''offline'')) (loadedPortal 1762000000000) =
           (None, s') \<and>
         sum_list (map (\<lambda>(key, c). length (Category.files c)) (categories s')) = 1)"
proof -
  let ?s = "loadedPortal 1762000000000"
  have h: "map fst (categories ?s) = categoryKeys"
    by (simp add: loadedPortal_def samplePortal_def newPortal_def comp_def)
  have one: "size (mset (Portal.files ?s)) = 1" by (simp add: loadedPortal_def)
  from categorizeFiles_partition[OF h, of "sampleEnv (NetworkError ''offline'')"]
  obtain s' where
    s': "categorizeFiles (sampleEnv (NetworkError ''offline'')) ?s = (None, s')"
        "mset (Portal.files s') = mset (Portal.files ?s)"
        "sum_list (map (\<lambda>(key, c). length (Category.files c)) (categories s')) =
           length (Portal.files s')"
    by blast
  from s'(2) one have "length (Portal.files s') = 1" by (metis size_mset)
  with s'(1,3) h show ?thesis by auto
qed



section \<open>The loaders\<close>

lemma length_knownFiles: "length knownFiles = 47"
  by (simp add: knownFiles_def)

lemma length_staticCatalog: "length (staticCatalog env) = 47"
  by (simp add: staticCatalog_def length_arraySort length_knownFiles)

lemma name_localFile: "name (localFile env (i, n)) = n"
  by (simp add: localFile_def)

lemma names_enumerate: "map name (map (localFile env) (enumerate k xs)) = xs"
  by (induction xs arbitrary: k) (simp_all add: name_localFile)

lemma mset_map_arraySort: "mset (map h (arraySort cmp xs)) = mset (map h xs)"
  by (simp add: mset_arraySort)

lemma names_staticCatalog: "mset (map name (staticCatalog env)) = mset knownFiles"
  by (simp only: staticCatalog_def mset_map_arraySort names_enumerate)

lemma loadLocalFiles_eq:
  "loadLocalFiles env s = s\<lparr> Portal.files := staticCatalog env, trace := trace s @ [StaticTable] \<rparr>"
  unfolding loadLocalFiles_def Let_def
  by (simp add: staticCatalog_def[symmetric] length_staticCatalog)

lemma loadFromGitHub_fails:
  assumes "remoteFails env"
  shows "\<exists>e. loadFromGitHub env s = (Some e, s\<lparr> trace := trace s @ [Fetch (apiUrl (currentRepo s))] \<rparr>)"
  using assms unfolding remoteFails_def loadFromGitHub_def Let_def
  by (auto split: FetchResult.splits option.splits)

lemma loadSource_remote_fails:
  assumes "useGitHubAPI (currentRepo s)" "\<not> isLocal (currentRepo s)" "remoteFails env"
  shows "loadSource env s =
    s\<lparr> Portal.files := staticCatalog env,
       trace := trace s @ [Fetch (apiUrl (currentRepo s)), StaticTable] \<rparr>"
proof -
  from loadFromGitHub_fails[OF assms(3), of s] obtain e where
    "loadFromGitHub env s = (Some e, s\<lparr> trace := trace s @ [Fetch (apiUrl (currentRepo s))] \<rparr>)"
    by blast
  then show ?thesis using assms(1,2) by (simp add: loadSource_def loadLocalFiles_eq)
qed

lemma loadFiles_reload:
  assumes "filesContainer s \<noteq> None" "forceRefresh \<or> \<not> isCacheValid (nowCheck env) s"
  shows "loadFiles forceRefresh env s =
    (case categorizeFiles env
            ((loadSource env (s\<lparr> filesContainer := Some LoadingView \<rparr>))\<lparr> lastUpdate := Some (nowLoaded env) \<rparr>) of
       (None, s4) \<Rightarrow> renderFiles env s4
     | (Some e, s4) \<Rightarrow> renderError s4)"
  using assms unfolding loadFiles_def Let_def by auto

lemma loadFiles_remote_failure:
  assumes "useGitHubAPI (currentRepo s)" "\<not> isLocal (currentRepo s)"
    and "filesContainer s \<noteq> None" "forceRefresh \<or> \<not> isCacheValid (nowCheck env) s"
    and "map fst (categories s) = categoryKeys"
    and "remoteFails env"
  shows "Portal.files (loadFiles forceRefresh env s) =
           arraySort (byCategoryThenNumber env) (staticCatalog env) \<and>
         (trace (loadFiles forceRefresh env s) =
            trace s @ [Fetch (apiUrl (currentRepo s)), StaticTable] \<or>
          trace (loadFiles forceRefresh env s) =
            trace s @ [Fetch (apiUrl (currentRepo s)), StaticTable, StorageWrite])"
proof -
  let ?s1 = "s\<lparr> filesContainer := Some LoadingView \<rparr>"
  let ?s3 = "(loadSource env ?s1)\<lparr> lastUpdate := Some (nowLoaded env) \<rparr>"
  have src: "loadSource env ?s1 =
      ?s1\<lparr> Portal.files := staticCatalog env,
           trace := trace ?s1 @ [Fetch (apiUrl (currentRepo ?s1)), StaticTable] \<rparr>"
    by (rule loadSource_remote_fails) (use assms in simp_all)
  have keys: "set categoryKeys \<subseteq> set (map fst (categories ?s3))"
    using assms(5) by (simp add: src)
  from categorizeFiles_ok[OF keys, of env] obtain cats where
    c: "categorizeFiles env ?s3 =
          (None, ?s3\<lparr> categories := cats,
                      Portal.files := arraySort (byCategoryThenNumber env) (Portal.files ?s3) \<rparr>)"
    by blast
  let ?s4 = "?s3\<lparr> categories := cats,
                  Portal.files := arraySort (byCategoryThenNumber env) (Portal.files ?s3) \<rparr>"
  have "loadFiles forceRefresh env s = renderFiles env ?s4"
    using loadFiles_reload[OF assms(3,4)] c by simp
  moreover have "Portal.files ?s4 = arraySort (byCategoryThenNumber env) (staticCatalog env)"
    by (simp add: src)
  moreover have "trace ?s4 = trace s @ [Fetch (apiUrl (currentRepo s)), StaticTable]"
    by (simp add: src)
  ultimately show ?thesis using renderFiles_frame[of env ?s4] by simp
qed

lemma sorted_static_names:
  "mset (map name (arraySort (byCategoryThenNumber env) (staticCatalog env))) = mset knownFiles"
  by (simp only: mset_map_arraySort names_staticCatalog)

lemma sorted_static_length:
  "length (arraySort (byCategoryThenNumber env) (staticCatalog env)) = 47"
  by (simp add: length_arraySort length_staticCatalog)





lemma loadFromGitHub0_404:
  assumes "response env = Response 404 statusText body"
  shows "loadFromGitHub0 env s =
    s\<lparr> trace := trace s @ [Fetch (apiUrl (currentRepo s))], Portal.files := [] \<rparr>"
  using assms unfolding loadFromGitHub0_def Let_def by (simp add: responseOk_def)

lemma loadFiles0_reload:
  assumes "\<not> isLocal (currentRepo s)" "filesContainer s \<noteq> None"
    "forceRefresh \<or> \<not> isCacheValid (nowCheck env) s"
  shows "loadFiles0 forceRefresh env s =
    renderFiles0 env ((loadFromGitHub0 env (s\<lparr> filesContainer := Some LoadingView \<rparr>))
                        \<lparr> lastUpdate := Some (nowLoaded env) \<rparr>)"
  using assms unfolding loadFiles0_def Let_def by auto

lemma renderFiles0_frame:
  "Portal.files (renderFiles0 env s) = Portal.files s \<and>
   (Portal.files s = [] \<and> filesContainer s \<noteq> None \<longrightarrow>
      renderFiles0 env s = s\<lparr> filesContainer := Some EmptyState \<rparr>)"
  by (simp add: renderFiles0_def renderEmptyState_def setCachedData_def Let_def)


lemma loadFiles0_404:
  assumes "\<not> isLocal (currentRepo s)" "filesContainer s \<noteq> None"
    "forceRefresh \<or> \<not> isCacheValid (nowCheck env) s"
    "response env = Response 404 statusText body"
  shows "loadFiles0 forceRefresh env s =
    s\<lparr> filesContainer := Some EmptyState,
       trace := trace s @ [Fetch (apiUrl (currentRepo s))],
       Portal.files := [],
       lastUpdate := Some (nowLoaded env) \<rparr>"
proof -
  let ?s1 = "s\<lparr> filesContainer := Some LoadingView \<rparr>"
  let ?s3 = "(loadFromGitHub0 env ?s1)\<lparr> lastUpdate := Some (nowLoaded env) \<rparr>"
  have r: "loadFiles0 forceRefresh env s = renderFiles0 env ?s3"
    by (rule loadFiles0_reload[OF assms(1,2,3)])
  have l: "loadFromGitHub0 env ?s1 =
      ?s1\<lparr> trace := trace ?s1 @ [Fetch (apiUrl (currentRepo ?s1))], Portal.files := [] \<rparr>"
    by (rule loadFromGitHub0_404[OF assms(4)])
  have "Portal.files ?s3 = [] \<and> filesContainer ?s3 \<noteq> None" unfolding l by simp
  with renderFiles0_frame[of env ?s3]
  have "renderFiles0 env ?s3 = ?s3\<lparr> filesContainer := Some EmptyState \<rparr>" by blast
  then show ?thesis unfolding r l by simp
qed


section \<open>Properties of the fallback\<close>

text \<open>
  Claim C1, as the code has it. Let the remote listing answer with the status 404.
  In the variant of \<^verbatim>\<open>src/unnamed/part_000\<close> the loader empties the file list and returns
  at once: on a remote page \<^verbatim>\<open>loadFiles\<close> ends with an empty catalog and the empty
  state, and the trace holds the request only, so neither the persisted store nor a
  static list was consulted. In \<^verbatim>\<open>assets/js/main.js\<close> the loader throws for 404 as
  for any other failure; on a remote page \<^verbatim>\<open>loadFiles\<close> catches the error and loads
  the static list, so the catalog holds the 47 known files.
\<close>

theorem notFound_handling:
  assumes "response env = Response 404 statusText body"
  shows "loadFromGitHub0 env s =
           s\<lparr> trace := trace s @ [Fetch (apiUrl (currentRepo s))], Portal.files := [] \<rparr> \<and>
         (\<not> isLocal (currentRepo s) \<and> filesContainer s \<noteq> None \<and>
          (forceRefresh \<or> \<not> isCacheValid (nowCheck env) s) \<longrightarrow>
            loadFiles0 forceRefresh env s =
              s\<lparr> filesContainer := Some EmptyState,
                 trace := trace s @ [Fetch (apiUrl (currentRepo s))],
                 Portal.files := [],
                 lastUpdate := Some (nowLoaded env) \<rparr>) \<and>
         loadFromGitHub env s =
           (Some NotesFolderNotFound, s\<lparr> trace := trace s @ [Fetch (apiUrl (currentRepo s))] \<rparr>) \<and>
         (useGitHubAPI (currentRepo s) \<and> \<not> isLocal (currentRepo s) \<and> filesContainer s \<noteq> None \<and>
          (forceRefresh \<or> \<not> isCacheValid (nowCheck env) s) \<and>
          map fst (categories s) = categoryKeys \<longrightarrow>
            mset (map name (Portal.files (loadFiles forceRefresh env s))) = mset knownFiles \<and>
            length (Portal.files (loadFiles forceRefresh env s)) = 47 \<and>
            (trace (loadFiles forceRefresh env s) =
               trace s @ [Fetch (apiUrl (currentRepo s)), StaticTable] \<or>
             trace (loadFiles forceRefresh env s) =
               trace s @ [Fetch (apiUrl (currentRepo s)), StaticTable, StorageWrite]))"
proof (intro conjI impI)
  show "loadFromGitHub0 env s =
      s\<lparr> trace := trace s @ [Fetch (apiUrl (currentRepo s))], Portal.files := [] \<rparr>"
    by (rule loadFromGitHub0_404[OF assms])
next
  assume "\<not> isLocal (currentRepo s) \<and> filesContainer s \<noteq> None \<and>
          (forceRefresh \<or> \<not> isCacheValid (nowCheck env) s)"
  then show "loadFiles0 forceRefresh env s =
      s\<lparr> filesContainer := Some EmptyState,
         trace := trace s @ [Fetch (apiUrl (currentRepo s))],
         Portal.files := [],
         lastUpdate := Some (nowLoaded env) \<rparr>"
    using loadFiles0_404[OF _ _ _ assms] by blast
next
  show "loadFromGitHub env s =
      (Some NotesFolderNotFound, s\<lparr> trace := trace s @ [Fetch (apiUrl (currentRepo s))] \<rparr>)"
    using assms by (simp add: loadFromGitHub_def Let_def responseOk_def)
next
  assume h: "useGitHubAPI (currentRepo s) \<and> \<not> isLocal (currentRepo s) \<and> filesContainer s \<noteq> None \<and>
          (forceRefresh \<or> \<not> isCacheValid (nowCheck env) s) \<and>
          map fst (categories s) = categoryKeys"
  have rf: "remoteFails env" using assms by (simp add: remoteFails_def responseOk_def)
  from h rf have r: "Portal.files (loadFiles forceRefresh env s) =
           arraySort (byCategoryThenNumber env) (staticCatalog env) \<and>
         (trace (loadFiles forceRefresh env s) =
            trace s @ [Fetch (apiUrl (currentRepo s)), StaticTable] \<or>
          trace (loadFiles forceRefresh env s) =
            trace s @ [Fetch (apiUrl (currentRepo s)), StaticTable, StorageWrite])"
    using loadFiles_remote_failure[of s forceRefresh env] by blast
  from r show "mset (map name (Portal.files (loadFiles forceRefresh env s))) = mset knownFiles"
    by (simp only: sorted_static_names)
  from r show "length (Portal.files (loadFiles forceRefresh env s)) = 47"
    by (simp only: sorted_static_length)
  from r show "trace (loadFiles forceRefresh env s) =
               trace s @ [Fetch (apiUrl (currentRepo s)), StaticTable] \<or>
             trace (loadFiles forceRefresh env s) =
               trace s @ [Fetch (apiUrl (currentRepo s)), StaticTable, StorageWrite]"
    by blast
qed

lemma sample_remote_ready:
  "useGitHubAPI (currentRepo (samplePortal (pagesRepo a b) st))"
  "\<not> isLocal (currentRepo (samplePortal (pagesRepo a b) st))"
  "filesContainer (samplePortal (pagesRepo a b) st) \<noteq> None"
  "\<not> isCacheValid t (samplePortal (pagesRepo a b) st)"
  "map fst (categories (samplePortal (pagesRepo a b) st)) = categoryKeys"
  "localStorage (samplePortal (pagesRepo a b) st) = st"
  by (simp_all add: samplePortal_def newPortal_def pagesRepo_def isCacheValid_def comp_def)

theorem notFound_handling_witness:
  "response (sampleEnv (Response 404 ''Not Found'' None)) = Response 404 ''Not Found'' None \<and>
   Portal.files (loadFiles0 False (sampleEnv (Response 404 ''Not Found'' None))
      (samplePortal (pagesRepo ''tiagolimasoares'' ''dev_notes'') None)) = [] \<and>
   length (Portal.files (loadFiles False (sampleEnv (Response 404 ''Not Found'' None))
      (samplePortal (pagesRepo ''tiagolimasoares'' ''dev_notes'') None))) = 47"
proof -
  let ?env = "sampleEnv (Response 404 ''Not Found'' None)"
  let ?s = "samplePortal (pagesRepo ''tiagolimasoares'' ''dev_notes'') None"
  have h: "response ?env = Response 404 ''Not Found'' None" by (simp add: sampleEnv_def)
  note t = notFound_handling[OF h, where s = ?s and forceRefresh = False]
  have nv: "False \<or> \<not> isCacheValid (nowCheck ?env) ?s"
    using sample_remote_ready(4) by simp
  from t sample_remote_ready(2,3) nv
  have "loadFiles0 False ?env ?s =
      ?s\<lparr> filesContainer := Some EmptyState,
          trace := trace ?s @ [Fetch (apiUrl (currentRepo ?s))],
          Portal.files := [],
          lastUpdate := Some (nowLoaded ?env) \<rparr>" by blast
  then have a: "Portal.files (loadFiles0 False ?env ?s) = []" by simp
  from t sample_remote_ready(1,2,3,5) nv
  have b: "length (Portal.files (loadFiles False ?env ?s)) = 47" by blast
  from h a b show ?thesis by blast
qed

text \<open>
  Claim C1 as stated fails on \<^verbatim>\<open>assets/js/main.js\<close>: with a remote page and the
  status 404 the catalog after \<^verbatim>\<open>loadFiles\<close> is not empty, and the static list was
  loaded.
\<close>

theorem notFound_handling_counterexample:
  "Portal.files (loadFiles False (sampleEnv (Response 404 ''Not Found'' None))
      (samplePortal (pagesRepo ''tiagolimasoares'' ''dev_notes'') None)) \<noteq> [] \<and>
   StaticTable \<in> set (trace (loadFiles False (sampleEnv (Response 404 ''Not Found'' None))
      (samplePortal (pagesRepo ''tiagolimasoares'' ''dev_notes'') None)))"
proof -
  let ?env = "sampleEnv (Response 404 ''Not Found'' None)"
  let ?s = "samplePortal (pagesRepo ''tiagolimasoares'' ''dev_notes'') None"
  have rf: "remoteFails ?env" by (simp add: remoteFails_def sampleEnv_def responseOk_def)
  have nv: "False \<or> \<not> isCacheValid (nowCheck ?env) ?s"
    using sample_remote_ready(4) by simp
  from loadFiles_remote_failure[OF sample_remote_ready(1,2,3) nv sample_remote_ready(5) rf]
  have r: "Portal.files (loadFiles False ?env ?s) =
           arraySort (byCategoryThenNumber ?env) (staticCatalog ?env)"
    and t: "trace (loadFiles False ?env ?s) =
            trace ?s @ [Fetch (apiUrl (currentRepo ?s)), StaticTable] \<or>
          trace (loadFiles False ?env ?s) =
            trace ?s @ [Fetch (apiUrl (currentRepo ?s)), StaticTable, StorageWrite]"
    by blast+
  have "length (Portal.files (loadFiles False ?env ?s)) = 47"
    unfolding r by (rule sorted_static_length)
  then have "Portal.files (loadFiles False ?env ?s) \<noteq> []" by auto
  moreover from t have "StaticTable \<in> set (trace (loadFiles False ?env ?s))" by auto
  ultimately show ?thesis by blast
qed





end
